theory Spec2Isabelle
  imports Main "HOL-Library.AList" "HOL-Library.Word"
begin

section \<open>Errors of the sink\<close>

text \<open>
  Go errors are values that may wrap another error. The constructors below are the
  error classes that \<^verbatim>\<open>main.go\<close> tells apart with \<^verbatim>\<open>errors.Is\<close> and
  \<^verbatim>\<open>errors.As\<close>; each carries the text its \<^verbatim>\<open>Error()\<close> method returns where
  the code reads it. \<open>Errorf p e\<close> is \<^verbatim>\<open>fmt.Errorf(p + ": %w", e)\<close>.

  The targets of the \<^verbatim>\<open>errors.As\<close> calls for the driver's errors are pointers
  (\<^verbatim>\<open>var cmdErr *mongo.CommandError\<close> at line 106, \<^verbatim>\<open>var bwe *mongo.BulkWriteException\<close>
  at lines 157, 284 and 333), and \<^verbatim>\<open>errors.As\<close> accepts an error of the chain only
  when its dynamic type is the target's type. The driver returns both errors by
  value. So each of the two has two constructors: \<open>CommandError\<close> and
  \<open>BulkWriteException\<close> are errors of the pointer types, the ones the targets
  accept; \<open>CommandError_value\<close> and \<open>BulkWriteException_value\<close> are the values
  \<^verbatim>\<open>mongo.CommandError\<close> and \<^verbatim>\<open>mongo.BulkWriteException\<close> as the driver's calls
  return them, which no target of the source accepts. \<open>WriteException\<close> is the
  error of a single write (\<^verbatim>\<open>InsertOne\<close>), for which the source has no target, and
  \<open>TemporaryError t m\<close> is an error with a method \<^verbatim>\<open>Temporary() bool\<close> answering \<open>t\<close>,
  as the errors of the network have.
\<close>

datatype error =
    Canceled
  | DeadlineExceeded
  | CommandError int string
  | CommandError_value int string
  | TemporaryError bool string
  | BulkWriteException "int list" string
  | BulkWriteException_value "int list" string
  | WriteException "int list" string
  | ErrNoDocuments
  | OtherError string
  | Errorf string error

text \<open>\<^verbatim>\<open>errors.Is(err, target)\<close> for a sentinel target: walk the chain of wrapped errors.\<close>

fun errors_Is :: "error \<Rightarrow> error \<Rightarrow> bool" where
  "errors_Is (Errorf p e) target = (Errorf p e = target \<or> errors_Is e target)"
| "errors_Is e target = (e = target)"

text \<open>
  \<^verbatim>\<open>errors.As(err, &cmdErr)\<close> with \<^verbatim>\<open>cmdErr *mongo.CommandError\<close>: the code of the
  first error of that pointer type in the chain. A command error held by value is
  passed over.
\<close>

fun as_CommandError :: "error \<Rightarrow> int option" where
  "as_CommandError (CommandError code m) = Some code"
| "as_CommandError (Errorf p e) = as_CommandError e"
| "as_CommandError e = None"

text \<open>
  \<^verbatim>\<open>errors.As(err, &netErr)\<close> with \<^verbatim>\<open>netErr interface{ Temporary() bool }\<close>: the
  answer of the first error in the chain that has the method. The context package's
  deadline error has it and answers true.
\<close>

fun as_Temporary :: "error \<Rightarrow> bool option" where
  "as_Temporary (TemporaryError t m) = Some t"
| "as_Temporary DeadlineExceeded = Some True"
| "as_Temporary (Errorf p e) = as_Temporary e"
| "as_Temporary e = None"

text \<open>
  \<^verbatim>\<open>errors.As(err, &bwe)\<close> with \<^verbatim>\<open>bwe *mongo.BulkWriteException\<close>: the write-error
  codes of the first error of that pointer type in the chain. A bulk write exception
  held by value is passed over.
\<close>

fun as_BulkWriteException :: "error \<Rightarrow> int list option" where
  "as_BulkWriteException (BulkWriteException codes m) = Some codes"
| "as_BulkWriteException (Errorf p e) = as_BulkWriteException e"
| "as_BulkWriteException e = None"

text \<open>\<^verbatim>\<open>err.Error()\<close>.\<close>

fun error_string :: "error \<Rightarrow> string" where
  "error_string Canceled = ''context canceled''"
| "error_string DeadlineExceeded = ''context deadline exceeded''"
| "error_string (CommandError code m) = m"
| "error_string (CommandError_value code m) = m"
| "error_string (TemporaryError t m) = m"
| "error_string (BulkWriteException codes m) = m"
| "error_string (BulkWriteException_value codes m) = m"
| "error_string (WriteException codes m) = m"
| "error_string ErrNoDocuments = ''mongo: no documents in result''"
| "error_string (OtherError m) = m"
| "error_string (Errorf p e) = p @ '': '' @ error_string e"

section \<open>The retry harness\<close>

text \<open>
  \<^verbatim>\<open>time.Duration\<close> is a signed 64-bit count of nanoseconds; durations are integers
  and the one arithmetic step that can leave the range (\<^verbatim>\<open>delay *= 2\<close>) wraps.
\<close>

definition wrap64 :: "int \<Rightarrow> int" where
  "wrap64 x = (x + 2 ^ 63) mod 2 ^ 64 - 2 ^ 63"

definition Millisecond :: int where
  "Millisecond = 1000000"

definition Second :: int where
  "Second = 1000000000"

text \<open>
  The classification of lines 106 to 117: a command error decides by its code, and
  only when the chain has no command error does a \<^verbatim>\<open>Temporary()\<close> method decide.
\<close>

definition isTransient :: "error \<Rightarrow> bool" where
  "isTransient err =
     (case as_CommandError err of
        Some code \<Rightarrow> code = 64 \<or> code = 10107 \<or> code = 13435
      | None \<Rightarrow> (case as_Temporary err of Some t \<Rightarrow> t | None \<Rightarrow> False))"

definition isCancellation :: "error \<Rightarrow> bool" where
  "isCancellation err = (errors_Is err Canceled \<or> errors_Is err DeadlineExceeded)"

text \<open>
  What the harness did, in order: \<open>Attempt r\<close> is one execution of the operation with
  its result, \<open>Sleep d\<close> one wait of \<open>d\<close> nanoseconds. The trace is a ghost value:
  the source returns the error only.
\<close>

datatype retry_event = Attempt "error option" | Sleep int

text \<open>
  The loop of \<^verbatim>\<open>retryWithBackoff\<close> (lines 91 to 144). The operation \<open>fn\<close> and the
  wait \<open>sleep\<close> act on a world \<open>'w\<close>; \<open>sleep d\<close> is the \<^verbatim>\<open>select\<close> of lines 129
  to 134 and answers \<open>Some (ctx.Err())\<close> when the context is done before the timer
  fires. The two log lines are not part of the model.
\<close>

function retry_loop ::
  "('w \<Rightarrow> error option \<times> 'w) \<Rightarrow> (int \<Rightarrow> 'w \<Rightarrow> error option \<times> 'w) \<Rightarrow>
   int \<Rightarrow> int \<Rightarrow> int \<Rightarrow> error option \<Rightarrow> 'w \<Rightarrow> error option \<times> retry_event list \<times> 'w" where
  "retry_loop fn sleep maxRetries attempt delay lastErr w =
     (if attempt \<le> maxRetries then
        (case fn w of
           (None, w1) \<Rightarrow> (None, [Attempt None], w1)
         | (Some err, w1) \<Rightarrow>
             if isCancellation err then (Some err, [Attempt (Some err)], w1)
             else if attempt \<ge> maxRetries \<or> \<not> isTransient err
               then (Some err, [Attempt (Some err)], w1)
             else
               (case sleep delay w1 of
                  (Some ctxErr, w2) \<Rightarrow> (Some ctxErr, [Attempt (Some err), Sleep delay], w2)
                | (None, w2) \<Rightarrow>
                    (let delay2 = wrap64 (delay * 2);
                         delay3 = (if delay2 > 10 * Second then 10 * Second else delay2);
                         (r, tr, w3) = retry_loop fn sleep maxRetries (attempt + 1) delay3 (Some err) w2
                     in (r, Attempt (Some err) # Sleep delay # tr, w3))))
      else (lastErr, [], w))"
  by pat_completeness auto
termination
  by (relation "measure (\<lambda>(fn, sleep, maxRetries, attempt, delay, lastErr, w).
        nat (maxRetries + 1 - attempt))") auto

definition retryWithBackoff ::
  "('w \<Rightarrow> error option \<times> 'w) \<Rightarrow> (int \<Rightarrow> 'w \<Rightarrow> error option \<times> 'w) \<Rightarrow>
   int \<Rightarrow> int \<Rightarrow> 'w \<Rightarrow> error option \<times> retry_event list \<times> 'w" where
  "retryWithBackoff fn sleep maxRetries initialDelay w =
     (let maxRetries = (if maxRetries \<le> 0 then 5 else maxRetries);
          initialDelay = (if initialDelay \<le> 0 then 100 * Millisecond else initialDelay)
      in retry_loop fn sleep maxRetries 0 initialDelay None w)"




section \<open>Values, decimal text and the event id\<close>

text \<open>
  A column value is a Go \<^verbatim>\<open>any\<close>. The model keeps the dynamic types the handler's own
  code produces or compares: \<^verbatim>\<open>nil\<close>, integers and strings (the composite key
  of \<^verbatim>\<open>pkVal\<close> is a string).
\<close>

datatype any = ANil | AInt int | AString string

text \<open>\<^verbatim>\<open>strconv\<close>'s decimal text of an integer, as the verbs \<^verbatim>\<open>%d\<close> and \<^verbatim>\<open>%v\<close> print it.\<close>

definition digit_char :: "nat \<Rightarrow> char" where
  "digit_char n = char_of (48 + n mod 10)"

function nat_dec :: "nat \<Rightarrow> string" where
  "nat_dec n = (if n < 10 then [digit_char n] else nat_dec (n div 10) @ [digit_char n])"
  by pat_completeness auto
termination
  by (relation "measure id") auto

definition int_dec :: "int \<Rightarrow> string" where
  "int_dec i = (if i < 0 then CHR ''-'' # nat_dec (nat (- i)) else nat_dec (nat i))"

text \<open>\<^verbatim>\<open>fmt.Sprint(v)\<close> and the verb \<^verbatim>\<open>%v\<close> on a value.\<close>

fun toS :: "any \<Rightarrow> string" where
  "toS ANil = ''<nil>''"
| "toS (AInt i) = int_dec i"
| "toS (AString s) = s"

text \<open>
  A \<^verbatim>\<open>time.Time\<close> is represented by its Unix time in nanoseconds, so
  \<^verbatim>\<open>ts.UnixNano()\<close> is the value itself and \<^verbatim>\<open>time.Unix(sec, 0)\<close> is
  \<open>sec * 10 ^ 9\<close>.
\<close>

type_synonym time = int

definition Unix :: "int \<Rightarrow> time" where
  "Unix sec = sec * 1000000000"

text \<open>
  The string that \<^verbatim>\<open>makeID\<close> hashes (line 451). The format has seven verbs for
  eight operands: the last verb \<^verbatim>\<open>%d\<close> receives the string \<^verbatim>\<open>gtid\<close>, which
  \<^verbatim>\<open>fmt\<close> prints as \<^verbatim>\<open>%!d(string=...)\<close>, and \<^verbatim>\<open>pos\<close> is left over, which
  \<^verbatim>\<open>fmt\<close> appends as \<^verbatim>\<open>%!(EXTRA uint64=...)\<close>.
\<close>

definition id_string ::
  "string \<Rightarrow> string \<Rightarrow> any \<Rightarrow> time \<Rightarrow> string \<Rightarrow> string \<Rightarrow> 64 word \<Rightarrow> string \<Rightarrow> string" where
  "id_string db tbl pk ts op file pos gtid =
     db @ ''|'' @ tbl @ ''|'' @ toS pk @ ''|'' @ int_dec ts @ ''|'' @ op @ ''|'' @ file @ ''|''
       @ ''%!d(string='' @ gtid @ '')''
       @ ''%!(EXTRA uint64='' @ nat_dec (unat pos) @ '')''"

text \<open>
  \<^verbatim>\<open>makeID\<close> (lines 450 to 454). The library call
  \<^verbatim>\<open>hex.EncodeToString(sha1.Sum(...))\<close> is the parameter \<open>sha1_hex\<close>.
\<close>

definition makeID ::
  "(string \<Rightarrow> string) \<Rightarrow> string \<Rightarrow> string \<Rightarrow> any \<Rightarrow> time \<Rightarrow> string \<Rightarrow> string \<Rightarrow> 64 word \<Rightarrow> string
   \<Rightarrow> string" where
  "makeID sha1_hex db tbl pk ts op file pos gtid =
     sha1_hex (id_string db tbl pk ts op file pos gtid)"

section \<open>The display timestamp\<close>

text \<open>
  \<^verbatim>\<open>ts.In(h.loc).Format("2006-01-02 15:04:05")\<close> (line 525) is a library call. Its
  model: a location gives the offset east of UTC, in seconds, that holds at a Unix
  time; the civil date of the shifted time is found by walking whole years from 1970
  and then whole months, in the proleptic Gregorian calendar; each layout element is
  printed by \<open>appendInt\<close>, which pads with zeros to a width.
\<close>

type_synonym location = "int \<Rightarrow> int"

definition is_leap :: "int \<Rightarrow> bool" where
  "is_leap y = (y mod 4 = 0 \<and> (y mod 100 \<noteq> 0 \<or> y mod 400 = 0))"

definition year_days :: "int \<Rightarrow> int" where
  "year_days y = (if is_leap y then 366 else 365)"

function year_of :: "int \<Rightarrow> int \<Rightarrow> int \<times> int" where
  "year_of y d =
     (if d < 0 then year_of (y - 1) (d + year_days (y - 1))
      else if d \<ge> year_days y then year_of (y + 1) (d - year_days y)
      else (y, d))"
  by pat_completeness auto
termination
  by (relation "measure (\<lambda>(y, d). if d < 0 then nat (- d) else if d \<ge> year_days y then nat d + 1 else 0)")
     (auto simp: year_days_def)

definition month_lengths :: "int \<Rightarrow> int list" where
  "month_lengths y = [31, if is_leap y then 29 else 28, 31, 30, 31, 30, 31, 31, 30, 31, 30, 31]"

fun month_of :: "int list \<Rightarrow> int \<Rightarrow> int \<Rightarrow> int \<times> int" where
  "month_of [] m d = (m, d + 1)"
| "month_of (l # ls) m d = (if d < l then (m, d + 1) else month_of ls (m + 1) (d - l))"

definition appendInt :: "int \<Rightarrow> nat \<Rightarrow> string" where
  "appendInt x width =
     (let ds = nat_dec (nat \<bar>x\<bar>)
      in (if x < 0 then ''-'' else []) @ replicate (width - length ds) CHR ''0'' @ ds)"

definition format_datetime :: "location \<Rightarrow> time \<Rightarrow> string" where
  "format_datetime loc ts =
     (let unix = ts div 1000000000;
          local = unix + loc unix;
          days = local div 86400;
          secs = local mod 86400;
          (year, yday) = year_of 1970 days;
          (month, day) = month_of (month_lengths year) 1 yday
      in appendInt year 4 @ ''-'' @ appendInt month 2 @ ''-'' @ appendInt day 2 @ '' ''
         @ appendInt (secs div 3600) 2 @ '':'' @ appendInt (secs mod 3600 div 60) 2 @ '':''
         @ appendInt (secs mod 60) 2)"

section \<open>Event documents\<close>

text \<open>
  The structs of lines 28 to 45. A change map is a Go map from column name to
  \<^verbatim>\<open>Delta\<close>: an association list with one entry per key, written with
  \<open>AList.update\<close> as the map assignment \<^verbatim>\<open>chg[k] = v\<close>. The \<^verbatim>\<open>Src\<close> field is a
  \<^verbatim>\<open>map[string]any\<close> literal and is kept as the document it encodes to.
\<close>

datatype bson =
    BNull
  | BInt int
  | BString string
  | BDateTime time
  | BDoc "(string \<times> bson) list"

record Delta =
  F :: any
  T :: any

record Meta =
  DB :: string
  Tbl :: string
  PK :: any

record EventDoc =
  ID :: string
  TS :: time
  OP :: string
  Meta :: Meta
  Seq :: int
  Chg :: "(string \<times> Delta) list"
  Src :: "(string \<times> bson) list"
  TSIST :: string

text \<open>
  The BSON encoding that the struct tags fix: the key of each field, and
  \<^verbatim>\<open>omitempty\<close> leaving out a nil interface, an empty map and an empty string.
  Fields without a tag are encoded under their lower-cased name.
\<close>

fun bson_any :: "any \<Rightarrow> bson" where
  "bson_any ANil = BNull"
| "bson_any (AInt i) = BInt i"
| "bson_any (AString s) = BString s"

definition bson_Delta :: "Delta \<Rightarrow> bson" where
  "bson_Delta d =
     BDoc ((if F d = ANil then [] else [(''f'', bson_any (F d))])
         @ (if T d = ANil then [] else [(''t'', bson_any (T d))]))"

definition bson_Meta :: "Meta \<Rightarrow> bson" where
  "bson_Meta m = BDoc [(''db'', BString (DB m)), (''tbl'', BString (Tbl m)), (''pk'', bson_any (PK m))]"

definition bson_EventDoc :: "EventDoc \<Rightarrow> (string \<times> bson) list" where
  "bson_EventDoc d =
     [(''_id'', BString (ID d)),
      (''ts'', BDateTime (TS d)),
      (''op'', BString (OP d)),
      (''meta'', bson_Meta (Meta d)),
      (''seq'', BInt (Seq d))]
     @ (if Chg d = [] then [] else [(''chg'', BDoc (map (\<lambda>(k, v). (k, bson_Delta v)) (Chg d)))])
     @ (if Src d = [] then [] else [(''src'', BDoc (Src d))])
     @ (if TSIST d = [] then [] else [(''ts_ist'', BString (TSIST d))])"

section \<open>The audit store\<close>

text \<open>
  The store is MongoDB, reached through the driver; neither is part of the repository.
  The model keeps the three collections of \<^verbatim>\<open>MongoSink\<close> as lists of documents in
  insertion order, each document carrying its \<^verbatim>\<open>_id\<close>, the clock that
  \<^verbatim>\<open>time.Now()\<close> reads, the log, and a schedule of injected faults: every driver
  call takes the head of \<open>faults\<close> and, when it is \<open>Some e\<close>, fails with \<open>e\<close> and
  changes nothing. With an empty schedule every call behaves as a healthy store does.
  The sink's flag \<^verbatim>\<open>noTxWarningLogged\<close> and the replication reader's side (the
  positions it was started from and the clock reading then, what it answers) are
  fields of the same record.
\<close>

record StagingDoc =
  st_id :: string
  st_events :: "EventDoc list"
  st_source :: string
  st_gtid :: string
  st_file :: string
  st_pos :: "32 word"
  createdAt :: time
  status :: string
  committedAt :: "time option"
  archivedAt :: "time option"

record OffsetDoc =
  off_id :: string
  off_source :: string
  off_gtid :: string
  off_file :: string
  off_pos :: "32 word"
  updatedAt :: time

record world =
  events :: "EventDoc list"
  offsets :: "OffsetDoc list"
  staging :: "StagingDoc list"
  clock :: time
  faults :: "error option list"
  logs :: "string list"
  noTxWarningLogged :: bool
  master_gtid :: "error + string"
  reader_result :: "error option"
  reader_started :: "(string \<times> time) list"

definition next_fault :: "world \<Rightarrow> error option \<times> world" where
  "next_fault w = (case faults w of [] \<Rightarrow> (None, w) | f # fs \<Rightarrow> (f, w\<lparr>faults := fs\<rparr>))"

text \<open>\<^verbatim>\<open>time.Now()\<close>: the clock is read and has moved on by the next reading.\<close>

definition Now :: "world \<Rightarrow> time \<times> world" where
  "Now w = (clock w, w\<lparr>clock := clock w + 1\<rparr>)"

definition log_Println :: "string \<Rightarrow> world \<Rightarrow> world" where
  "log_Println line w = w\<lparr>logs := logs w @ [line]\<rparr>"

text \<open>
  A context is \<open>None\<close> for \<^verbatim>\<open>context.Background()\<close> and \<open>Some (t, e)\<close> for one
  that is done from clock time \<open>t\<close> on with \<^verbatim>\<open>ctx.Err() = e\<close>. The wait of the
  retry harness on the store's clock: the context wins when it is done by the time
  the timer would fire.
\<close>

type_synonym "context" = "(time \<times> error) option"

definition sleep_ctx :: "context \<Rightarrow> int \<Rightarrow> world \<Rightarrow> error option \<times> world" where
  "sleep_ctx ctx d w =
     (case ctx of
        None \<Rightarrow> (None, w\<lparr>clock := clock w + max 0 d\<rparr>)
      | Some (t, e) \<Rightarrow>
          if t \<le> clock w + max 0 d then (Some e, w\<lparr>clock := max (clock w) t\<rparr>)
          else (None, w\<lparr>clock := clock w + max 0 d\<rparr>))"

text \<open>\<^verbatim>\<open>s.staging.InsertOne\<close>: the \<^verbatim>\<open>_id\<close> index refuses a second document of one id.\<close>

definition staging_InsertOne :: "StagingDoc \<Rightarrow> world \<Rightarrow> error option \<times> world" where
  "staging_InsertOne doc w =
     (case next_fault w of
        (Some e, w1) \<Rightarrow> (Some e, w1)
      | (None, w1) \<Rightarrow>
          if st_id doc \<in> set (map st_id (staging w1))
          then (Some (WriteException [11000] ''E11000 duplicate key error''), w1)
          else (None, w1\<lparr>staging := staging w1 @ [doc]\<rparr>))"

text \<open>\<^verbatim>\<open>s.staging.UpdateByID(ctx, id, {"$set": ...})\<close>: no match is not an error.\<close>

definition staging_UpdateByID ::
  "string \<Rightarrow> (StagingDoc \<Rightarrow> StagingDoc) \<Rightarrow> world \<Rightarrow> error option \<times> world" where
  "staging_UpdateByID i upd w =
     (case next_fault w of
        (Some e, w1) \<Rightarrow> (Some e, w1)
      | (None, w1) \<Rightarrow>
          (None, w1\<lparr>staging := map (\<lambda>d. if st_id d = i then upd d else d) (staging w1)\<rparr>))"

text \<open>
  An unordered \<^verbatim>\<open>BulkWrite\<close> of inserts: every document is tried; one whose id is
  present is a write error with code 11000, the others are stored. The write errors
  come back as a \<^verbatim>\<open>mongo.BulkWriteException\<close> held by value.
\<close>

fun insert_unordered :: "EventDoc list \<Rightarrow> EventDoc list \<Rightarrow> int list \<times> EventDoc list" where
  "insert_unordered [] coll = ([], coll)"
| "insert_unordered (d # ds) coll =
     (if ID d \<in> set (map ID coll)
      then (let (codes, coll2) = insert_unordered ds coll in (11000 # codes, coll2))
      else insert_unordered ds (coll @ [d]))"

definition events_BulkWrite :: "EventDoc list \<Rightarrow> world \<Rightarrow> error option \<times> world" where
  "events_BulkWrite docs w =
     (case next_fault w of
        (Some e, w1) \<Rightarrow> (Some e, w1)
      | (None, w1) \<Rightarrow>
          (let (codes, coll) = insert_unordered docs (events w1)
           in (if codes = [] then None
               else Some (BulkWriteException_value codes ''bulk write exception: write errors''),
               w1\<lparr>events := coll\<rparr>)))"

text \<open>
  \<^verbatim>\<open>s.offsets.UpdateByID(ctx, source, {"$set": ...}, upsert)\<close>: the document whose
  \<^verbatim>\<open>_id\<close> is the source gets the fields, and is created when there is none.
\<close>

definition offsets_Upsert ::
  "string \<Rightarrow> string \<Rightarrow> string \<Rightarrow> 32 word \<Rightarrow> time \<Rightarrow> world \<Rightarrow> error option \<times> world" where
  "offsets_Upsert source gtid file pos t w =
     (case next_fault w of
        (Some e, w1) \<Rightarrow> (Some e, w1)
      | (None, w1) \<Rightarrow>
          (let doc = \<lparr>off_id = source, off_source = source, off_gtid = gtid, off_file = file,
                      off_pos = pos, updatedAt = t\<rparr>
           in (None,
               w1\<lparr>offsets :=
                    (if source \<in> set (map off_id (offsets w1))
                     then map (\<lambda>d. if off_id d = source then doc else d) (offsets w1)
                     else offsets w1 @ [doc])\<rparr>)))"

text \<open>The upsert of lines 303 to 311 and 352 to 360, with its reading of the clock.\<close>

definition save_offset ::
  "string \<Rightarrow> string \<Rightarrow> string \<Rightarrow> 32 word \<Rightarrow> world \<Rightarrow> error option \<times> world" where
  "save_offset source gtid file pos w =
     (let (t, w1) = Now w in offsets_Upsert source gtid file pos t w1)"

section \<open>The sink\<close>

text \<open>
  The loop over \<^verbatim>\<open>bwe.WriteErrors\<close> that three functions share: it stops at the
  first code that is not 11000.
\<close>

fun allDup :: "int list \<Rightarrow> bool" where
  "allDup [] = True"
| "allDup (code # codes) = (if code \<noteq> 11000 then False else allDup codes)"

text \<open>\<^verbatim>\<open>writeBatch\<close> (lines 147 to 173): the bulk insert alone.\<close>

definition writeBatch :: "EventDoc list \<Rightarrow> world \<Rightarrow> error option \<times> world" where
  "writeBatch docs w =
     (if length docs = 0 then (None, w)
      else
        (case events_BulkWrite docs w of
           (Some err, w1) \<Rightarrow>
             (case as_BulkWriteException err of
                Some codes \<Rightarrow> if allDup codes then (None, w1) else (Some err, w1)
              | None \<Rightarrow> (Some err, w1))
         | (None, w1) \<Rightarrow> (None, w1)))"

text \<open>
  \<^verbatim>\<open>session.WithTransaction\<close>: the writes of the callback are kept when the callback
  returns no error and the commit (one more driver call) succeeds, and are undone
  otherwise. The driver's own repetition of the callback is not modelled: a fault
  reaches the caller.
\<close>

definition rollback :: "world \<Rightarrow> world \<Rightarrow> world" where
  "rollback w0 w = w\<lparr>events := events w0, offsets := offsets w0, staging := staging w0\<rparr>"

definition WithTransaction ::
  "(world \<Rightarrow> error option \<times> world) \<Rightarrow> world \<Rightarrow> error option \<times> world" where
  "WithTransaction body w =
     (case body w of
        (Some err, w1) \<Rightarrow> (Some err, rollback w w1)
      | (None, w1) \<Rightarrow>
          (case next_fault w1 of
             (Some e, w2) \<Rightarrow> (Some e, rollback w w2)
           | (None, w2) \<Rightarrow> (None, w2)))"

text \<open>The callback of lines 276 to 317.\<close>

definition transaction_body ::
  "EventDoc list \<Rightarrow> string \<Rightarrow> string \<Rightarrow> string \<Rightarrow> 32 word \<Rightarrow> world \<Rightarrow> error option \<times> world" where
  "transaction_body docs source gtid file pos w =
     (let saveGTID = (\<lambda>w1.
            case save_offset source gtid file pos w1 of
              (Some e, w2) \<Rightarrow> (Some (Errorf ''save GTID'' e), w2)
            | (None, w2) \<Rightarrow> (None, w2))
      in case events_BulkWrite docs w of
           (Some err, w1) \<Rightarrow>
             (case as_BulkWriteException err of
                Some codes \<Rightarrow> if \<not> allDup codes then (Some err, w1) else saveGTID w1
              | None \<Rightarrow> (Some err, w1))
         | (None, w1) \<Rightarrow> saveGTID w1)"

text \<open>\<^verbatim>\<open>writeBatchWithTransaction\<close> (lines 269 to 320).\<close>

definition writeBatchWithTransaction ::
  "EventDoc list \<Rightarrow> string \<Rightarrow> string \<Rightarrow> string \<Rightarrow> 32 word \<Rightarrow> world \<Rightarrow> error option \<times> world" where
  "writeBatchWithTransaction docs source gtid file pos w =
     (case next_fault w of
        (Some e, w1) \<Rightarrow> (Some (Errorf ''start session'' e), w1)
      | (None, w1) \<Rightarrow> WithTransaction (transaction_body docs source gtid file pos) w1)"

text \<open>\<^verbatim>\<open>writeBatchWithoutTransaction\<close> (lines 325 to 366).\<close>

definition writeBatchWithoutTransaction ::
  "EventDoc list \<Rightarrow> string \<Rightarrow> string \<Rightarrow> string \<Rightarrow> 32 word \<Rightarrow> world \<Rightarrow> error option \<times> world" where
  "writeBatchWithoutTransaction docs source gtid file pos w =
     (let saveGTID = (\<lambda>w1.
            case save_offset source gtid file pos w1 of
              (Some e, w2) \<Rightarrow> (Some (Errorf ''save GTID (non-transactional)'' e), w2)
            | (None, w2) \<Rightarrow> (None, w2))
      in case events_BulkWrite docs w of
           (Some err, w1) \<Rightarrow>
             (case as_BulkWriteException err of
                Some codes \<Rightarrow>
                  if \<not> allDup codes then (Some (Errorf ''bulk write events'' err), w1)
                  else saveGTID w1
              | None \<Rightarrow> (Some (Errorf ''bulk write events'' err), w1))
         | (None, w1) \<Rightarrow> saveGTID w1)"

text \<open>\<^verbatim>\<open>strings.Contains\<close>.\<close>

fun contains :: "string \<Rightarrow> string \<Rightarrow> bool" where
  "contains [] sub = (sub = [])"
| "contains (c # cs) sub = (take (length sub) (c # cs) = sub \<or> contains cs sub)"

text \<open>
  \<^verbatim>\<open>writeBatchWithGTID\<close> (lines 176 to 227). The batch id and the staging document
  are built once, before the retry harness is entered (lines 182 to 192); the retried
  closure (lines 195 to 226) is \<open>commit_attempt\<close>.
\<close>

definition commit_attempt ::
  "string \<Rightarrow> StagingDoc \<Rightarrow> EventDoc list \<Rightarrow> string \<Rightarrow> string \<Rightarrow> string \<Rightarrow> 32 word \<Rightarrow> world
   \<Rightarrow> error option \<times> world" where
  "commit_attempt batchID stagingDoc docs source gtid file pos w =
     (let mark = (\<lambda>w1.
            let (t, w2) = Now w1;
                (ignored, w3) = staging_UpdateByID batchID
                   (\<lambda>d. d\<lparr>status := ''committed'', committedAt := Some t\<rparr>) w2
            in (None, w3))
      in case staging_InsertOne stagingDoc w of
           (Some err, w1) \<Rightarrow> (Some (Errorf ''staging insert'' err), w1)
         | (None, w1) \<Rightarrow>
             (case writeBatchWithTransaction docs source gtid file pos w1 of
                (Some err, w2) \<Rightarrow>
                  if contains (error_string err) ''Transaction numbers are only allowed on a replica set''
                     \<or> contains (error_string err)
                          ''Cannot insert into a time-series collection in a multi-document transaction''
                  then
                    (let w3 = (if \<not> noTxWarningLogged w2
                               then (log_Println ''WARNING: MongoDB transactions not supported (standalone or time-series collection), using non-transactional writes. Data safety reduced.'' w2)
                                      \<lparr>noTxWarningLogged := True\<rparr>
                               else w2)
                     in case writeBatchWithoutTransaction docs source gtid file pos w3 of
                          (Some err2, w4) \<Rightarrow>
                            (Some (Errorf ''write batch (non-transactional fallback)'' err2), w4)
                        | (None, w4) \<Rightarrow> mark w4)
                  else (Some err, w2)
              | (None, w2) \<Rightarrow> mark w2))"

definition writeBatchWithGTID ::
  "context \<Rightarrow> EventDoc list \<Rightarrow> string \<Rightarrow> string \<Rightarrow> string \<Rightarrow> 32 word \<Rightarrow> world
   \<Rightarrow> error option \<times> world" where
  "writeBatchWithGTID ctx docs source gtid file pos w =
     (if length docs = 0 then (None, w)
      else
        (let (t1, w1) = Now w;
             batchID = source @ ''_'' @ int_dec t1 @ ''_'' @ gtid;
             (t2, w2) = Now w1;
             stagingDoc = \<lparr>st_id = batchID, st_events = docs, st_source = source, st_gtid = gtid,
                           st_file = file, st_pos = pos, createdAt = t2, status = ''pending'',
                           committedAt = None, archivedAt = None\<rparr>;
             (r, tr, w3) = retryWithBackoff
                (commit_attempt batchID stagingDoc docs source gtid file pos)
                (sleep_ctx ctx) 5 (100 * Millisecond) w2
         in (r, w3)))"

section \<open>The handler\<close>

text \<open>
  A row event as the handler reads it: the table's schema and name, the names of its
  declared columns in order, the indexes of its primary-key columns, the action, the
  rows and the header's timestamp (a \<^verbatim>\<open>uint32\<close> of seconds). The three action
  names are constants of the replication library.
\<close>

record Table =
  Schema :: string
  Name :: string
  Columns :: "string list"
  PKColumns :: "nat list"

record RowsEvent =
  Table :: Table
  Action :: string
  Rows :: "any list list"
  Timestamp :: "32 word"

definition InsertAction :: string where
  "InsertAction = ''insert''"

definition UpdateAction :: string where
  "UpdateAction = ''update''"

definition DeleteAction :: string where
  "DeleteAction = ''delete''"

record Handler =
  source :: string
  batch :: "EventDoc list"
  lastFile :: string
  lastPos :: "64 word"
  lastGTID :: string
  loc :: "location option"
  batchFile :: string
  batchPos :: "32 word"
  batchGTID :: string
  tableSchemas :: "string \<rightharpoonup> string list"

text \<open>
  What a handler call does to its caller: it returns (an error or \<^verbatim>\<open>nil\<close>), or it
  panics. An index expression \<^verbatim>\<open>xs[i]\<close> panics when \<open>i\<close> is out of range.
\<close>

datatype ret = Return "error option" | Panic string

definition index :: "'a list \<Rightarrow> nat \<Rightarrow> 'a option" where
  "index xs i = (if i < length xs then Some (xs ! i) else None)"

text \<open>\<^verbatim>\<open>reflect.DeepEqual\<close> on two column values.\<close>

definition DeepEqual :: "any \<Rightarrow> any \<Rightarrow> bool" where
  "DeepEqual a b = (a = b)"

text \<open>\<^verbatim>\<open>strings.Join\<close>.\<close>

fun Join :: "string list \<Rightarrow> string \<Rightarrow> string" where
  "Join [] sep = []"
| "Join [p] sep = p"
| "Join (p # ps) sep = p @ sep @ Join ps sep"

text \<open>
  The closure \<^verbatim>\<open>pkVal\<close> (lines 491 to 515). Every read of the row is guarded by a
  length test in the source.
\<close>

definition pkVal :: "nat list \<Rightarrow> any list \<Rightarrow> any" where
  "pkVal pkColumns row =
     (let n = length pkColumns
      in if n = 1 then
           (let idx = pkColumns ! 0 in if idx \<ge> length row then ANil else row ! idx)
         else if n > 1 then
           (let parts = map (\<lambda>idx. toS (row ! idx)) (filter (\<lambda>idx. \<not> idx \<ge> length row) pkColumns)
            in if length parts = 0 then ANil else AString (Join parts ''|''))
         else if length row > 0 then row ! 0
         else ANil)"

text \<open>
  The three column loops (lines 551 to 553, 565 to 567 and 583 to 587), each with the
  bound \<^verbatim>\<open>maxIdx\<close> that the source computes before it. \<open>None\<close> is a panic of an
  index expression.
\<close>

function insert_cols ::
  "string list \<Rightarrow> any list \<Rightarrow> nat \<Rightarrow> nat \<Rightarrow> (string \<times> Delta) list \<Rightarrow> (string \<times> Delta) list option" where
  "insert_cols colNames row i maxIdx chg =
     (if i < maxIdx then
        (case (index colNames i, index row i) of
           (Some name, Some v) \<Rightarrow>
             insert_cols colNames row (i + 1) maxIdx (AList.update name \<lparr>F = ANil, T = v\<rparr> chg)
         | _ \<Rightarrow> None)
      else Some chg)"
  by pat_completeness auto
termination
  by (relation "measure (\<lambda>(colNames, row, i, maxIdx, chg). maxIdx - i)") auto

function delete_cols ::
  "string list \<Rightarrow> any list \<Rightarrow> nat \<Rightarrow> nat \<Rightarrow> (string \<times> Delta) list \<Rightarrow> (string \<times> Delta) list option" where
  "delete_cols colNames row i maxIdx chg =
     (if i < maxIdx then
        (case (index colNames i, index row i) of
           (Some name, Some v) \<Rightarrow>
             delete_cols colNames row (i + 1) maxIdx (AList.update name \<lparr>F = v, T = ANil\<rparr> chg)
         | _ \<Rightarrow> None)
      else Some chg)"
  by pat_completeness auto
termination
  by (relation "measure (\<lambda>(colNames, row, i, maxIdx, chg). maxIdx - i)") auto

function update_cols ::
  "string list \<Rightarrow> any list \<Rightarrow> any list \<Rightarrow> nat \<Rightarrow> nat \<Rightarrow> (string \<times> Delta) list
   \<Rightarrow> (string \<times> Delta) list option" where
  "update_cols colNames before after c maxIdx chg =
     (if c < maxIdx then
        (case (index before c, index after c) of
           (Some b, Some a) \<Rightarrow>
             if \<not> DeepEqual b a then
               (case index colNames c of
                  Some name \<Rightarrow>
                    update_cols colNames before after (c + 1) maxIdx
                      (AList.update name \<lparr>F = b, T = a\<rparr> chg)
                | None \<Rightarrow> None)
             else update_cols colNames before after (c + 1) maxIdx chg
         | _ \<Rightarrow> None)
      else Some chg)"
  by pat_completeness auto
termination
  by (relation "measure (\<lambda>(colNames, before, after, c, maxIdx, chg). maxIdx - c)") auto

definition insert_chg :: "string list \<Rightarrow> any list \<Rightarrow> (string \<times> Delta) list option" where
  "insert_chg colNames row =
     (let maxIdx = length colNames;
          maxIdx = (if length row < maxIdx then length row else maxIdx)
      in insert_cols colNames row 0 maxIdx [])"

definition delete_chg :: "string list \<Rightarrow> any list \<Rightarrow> (string \<times> Delta) list option" where
  "delete_chg colNames row =
     (let maxIdx = length colNames;
          maxIdx = (if length row < maxIdx then length row else maxIdx)
      in delete_cols colNames row 0 maxIdx [])"

definition update_chg :: "string list \<Rightarrow> any list \<Rightarrow> any list \<Rightarrow> (string \<times> Delta) list option" where
  "update_chg colNames before after =
     (let maxIdx = length colNames;
          maxIdx = (if length before < maxIdx then length before else maxIdx);
          maxIdx = (if length after < maxIdx then length after else maxIdx)
      in update_cols colNames before after 0 maxIdx [])"

text \<open>
  The closure \<^verbatim>\<open>addDoc\<close> (lines 517 to 541); \<open>newEventDoc\<close> is its struct literal
  (lines 518 to 526). \<^verbatim>\<open>ts.In(h.loc)\<close> panics on a nil location, which is what
  \<^verbatim>\<open>main\<close> holds when the time zone failed to load.
\<close>

definition newEventDoc ::
  "(string \<Rightarrow> string) \<Rightarrow> Handler \<Rightarrow> location \<Rightarrow> string \<Rightarrow> string \<Rightarrow> time \<Rightarrow> any
   \<Rightarrow> (string \<times> Delta) list \<Rightarrow> string \<Rightarrow> EventDoc" where
  "newEventDoc sha1_hex h l db tbl ts pk chg op =
     \<lparr>ID = makeID sha1_hex db tbl pk ts op (lastFile h) (lastPos h) (lastGTID h),
      TS = ts,
      OP = op,
      Meta = \<lparr>DB = db, Tbl = tbl, PK = pk\<rparr>,
      Seq = 0,
      Chg = chg,
      Src = [(''binlog'', BDoc [(''file'', BString (lastFile h)), (''pos'', BInt (uint (lastPos h)))]),
             (''gtid'', BString (lastGTID h))],
      TSIST = format_datetime l ts\<rparr>"

definition addDoc ::
  "(string \<Rightarrow> string) \<Rightarrow> string \<Rightarrow> string \<Rightarrow> time \<Rightarrow> any \<Rightarrow> (string \<times> Delta) list \<Rightarrow> string
   \<Rightarrow> Handler \<Rightarrow> world \<Rightarrow> ret \<times> Handler \<times> world" where
  "addDoc sha1_hex db tbl ts pk chg op h w =
     (case loc h of
        None \<Rightarrow> (Panic ''time: missing Location in call to Time.In'', h, w)
      | Some l \<Rightarrow>
          (let doc = newEventDoc sha1_hex h l db tbl ts pk chg op;
               h1 = h\<lparr>batch := batch h @ [doc]\<rparr>;
               h2 = h1\<lparr>batchFile := lastFile h1, batchPos := ucast (lastPos h1),
                        batchGTID := lastGTID h1\<rparr>
           in if length (batch h2) \<ge> 100 then
                (case writeBatchWithGTID None (batch h2) (source h2) (batchGTID h2) (batchFile h2)
                        (batchPos h2) w of
                   (Some err, w1) \<Rightarrow> (Return (Some (Errorf ''write batch with GTID'' err)), h2, w1)
                 | (None, w1) \<Rightarrow> (Return None, h2\<lparr>batch := []\<rparr>, w1))
              else (Return None, h2, w)))"

text \<open>
  The row loops of \<^verbatim>\<open>OnRow\<close> (lines 545 to 557, 559 to 571 and 573 to 591). The
  insert and delete loops range over the rows; the update loop counts \<open>i\<close> in steps
  of two and reads \<^verbatim>\<open>e.Rows[i]\<close> and \<^verbatim>\<open>e.Rows[i+1]\<close>.
\<close>

fun insert_rows ::
  "(string \<Rightarrow> string) \<Rightarrow> RowsEvent \<Rightarrow> any list list \<Rightarrow> Handler \<Rightarrow> world \<Rightarrow> ret \<times> Handler \<times> world" where
  "insert_rows sha1_hex e [] h w = (Return None, h, w)"
| "insert_rows sha1_hex e (row # rows) h w =
     (case insert_chg (Columns (Table e)) row of
        None \<Rightarrow> (Panic ''index out of range'', h, w)
      | Some chg \<Rightarrow>
          (case addDoc sha1_hex (Schema (Table e)) (Name (Table e)) (Unix (uint (Timestamp e)))
                  (pkVal (PKColumns (Table e)) row) chg ''i'' h w of
             (Return None, h1, w1) \<Rightarrow> insert_rows sha1_hex e rows h1 w1
           | (Return (Some err), h1, w1) \<Rightarrow> (Return (Some (Errorf ''insert action'' err)), h1, w1)
           | (Panic m, h1, w1) \<Rightarrow> (Panic m, h1, w1)))"

fun delete_rows ::
  "(string \<Rightarrow> string) \<Rightarrow> RowsEvent \<Rightarrow> any list list \<Rightarrow> Handler \<Rightarrow> world \<Rightarrow> ret \<times> Handler \<times> world" where
  "delete_rows sha1_hex e [] h w = (Return None, h, w)"
| "delete_rows sha1_hex e (row # rows) h w =
     (case delete_chg (Columns (Table e)) row of
        None \<Rightarrow> (Panic ''index out of range'', h, w)
      | Some chg \<Rightarrow>
          (case addDoc sha1_hex (Schema (Table e)) (Name (Table e)) (Unix (uint (Timestamp e)))
                  (pkVal (PKColumns (Table e)) row) chg ''d'' h w of
             (Return None, h1, w1) \<Rightarrow> delete_rows sha1_hex e rows h1 w1
           | (Return (Some err), h1, w1) \<Rightarrow> (Return (Some (Errorf ''delete action'' err)), h1, w1)
           | (Panic m, h1, w1) \<Rightarrow> (Panic m, h1, w1)))"

function update_rows ::
  "(string \<Rightarrow> string) \<Rightarrow> RowsEvent \<Rightarrow> nat \<Rightarrow> Handler \<Rightarrow> world \<Rightarrow> ret \<times> Handler \<times> world" where
  "update_rows sha1_hex e i h w =
     (if i < length (Rows e) then
        (case (index (Rows e) i, index (Rows e) (i + 1)) of
           (Some before, Some after) \<Rightarrow>
             (case update_chg (Columns (Table e)) before after of
                None \<Rightarrow> (Panic ''index out of range'', h, w)
              | Some chg \<Rightarrow>
                  (case addDoc sha1_hex (Schema (Table e)) (Name (Table e))
                          (Unix (uint (Timestamp e))) (pkVal (PKColumns (Table e)) after) chg ''u''
                          h w of
                     (Return None, h1, w1) \<Rightarrow> update_rows sha1_hex e (i + 2) h1 w1
                   | (Return (Some err), h1, w1) \<Rightarrow>
                       (Return (Some (Errorf ''update action'' err)), h1, w1)
                   | (Panic m, h1, w1) \<Rightarrow> (Panic m, h1, w1)))
         | _ \<Rightarrow> (Panic ''index out of range'', h, w))
      else (Return None, h, w))"
  by pat_completeness auto
termination
  by (relation "measure (\<lambda>(sha1_hex, e, i, h, w). length (Rows e) - i)") auto

text \<open>\<^verbatim>\<open>OnRow\<close> (lines 474 to 594).\<close>

definition OnRow ::
  "(string \<Rightarrow> string) \<Rightarrow> RowsEvent \<Rightarrow> Handler \<Rightarrow> world \<Rightarrow> ret \<times> Handler \<times> world" where
  "OnRow sha1_hex e h w =
     (if length (PKColumns (Table e)) = 0 then (Return None, h, w)
      else if Action e = InsertAction then insert_rows sha1_hex e (Rows e) h w
      else if Action e = DeleteAction then delete_rows sha1_hex e (Rows e) h w
      else if Action e = UpdateAction then update_rows sha1_hex e 0 h w
      else (Return None, h, w))"

text \<open>\<^verbatim>\<open>Flush\<close> (lines 423 to 433).\<close>

definition Flush :: "context \<Rightarrow> Handler \<Rightarrow> world \<Rightarrow> error option \<times> Handler \<times> world" where
  "Flush ctx h w =
     (if length (batch h) = 0 then (None, h, w)
      else
        (let w1 = log_Println (''Flushing '' @ nat_dec (length (batch h)) @ '' remaining events'') w
         in case writeBatchWithGTID ctx (batch h) (source h) (batchGTID h) (batchFile h)
                   (batchPos h) w1 of
              (Some err, w2) \<Rightarrow> (Some (Errorf ''flush batch'' err), h, w2)
            | (None, w2) \<Rightarrow> (None, h\<lparr>batch := []\<rparr>, w2)))"

text \<open>\<^verbatim>\<open>OnTableChanged\<close> (lines 619 to 629).\<close>

definition OnTableChanged ::
  "string \<Rightarrow> string \<Rightarrow> Handler \<Rightarrow> world \<Rightarrow> error option \<times> Handler \<times> world" where
  "OnTableChanged schema table h w =
     (let key = schema @ ''.'' @ table;
          h1 = h\<lparr>tableSchemas := (tableSchemas h)(key := None)\<rparr>;
          w1 = log_Println (''Schema change detected: '' @ key @ '' - flushing batch for safety'') w
      in case Flush None h1 w1 of
           (Some err, h2, w2) \<Rightarrow>
             (None, h2, log_Println (''Error flushing on schema change: '' @ error_string err) w2)
         | (None, h2, w2) \<Rightarrow> (None, h2, w2))"

section \<open>Recovery and startup\<close>

text \<open>
  \<^verbatim>\<open>RecoverPendingBatches\<close> (lines 370 to 397). \<^verbatim>\<open>Find\<close> and \<^verbatim>\<open>cursor.All\<close> are
  one driver call each; the result of every \<^verbatim>\<open>UpdateByID\<close> is discarded.
\<close>

fun archive_all :: "StagingDoc list \<Rightarrow> world \<Rightarrow> world" where
  "archive_all [] w = w"
| "archive_all (doc # docs) w =
     (let w1 = log_Println (''Recovering batch '' @ st_id doc) w;
          (t, w2) = Now w1;
          (ignored, w3) = staging_UpdateByID (st_id doc)
             (\<lambda>d. d\<lparr>status := ''archived'', archivedAt := Some t\<rparr>) w2
      in archive_all docs w3)"

definition RecoverPendingBatches :: "world \<Rightarrow> error option \<times> world" where
  "RecoverPendingBatches w =
     (case next_fault w of
        (Some err, w1) \<Rightarrow> (Some (Errorf ''find pending batches'' err), w1)
      | (None, w1) \<Rightarrow>
          (case next_fault w1 of
             (Some err, w2) \<Rightarrow> (Some (Errorf ''decode pending batches'' err), w2)
           | (None, w2) \<Rightarrow>
               (let stagingDocs = filter (\<lambda>d. status d = ''pending'') (staging w2)
                in if length stagingDocs > 0 then
                     (None,
                      archive_all stagingDocs
                        (log_Println (''Found '' @ nat_dec (length stagingDocs)
                                       @ '' pending batches to recover'') w2))
                   else (None, w2))))"

text \<open>
  \<^verbatim>\<open>loadGTID\<close> (lines 240 to 266). The retried closure writes the variable
  \<^verbatim>\<open>doc\<close> of the enclosing function, so the closure's state is the pair of
  \<^verbatim>\<open>doc.GTID\<close> and the world. \<^verbatim>\<open>FindOne(...).Decode\<close> is one driver call and
  answers \<^verbatim>\<open>mongo.ErrNoDocuments\<close> when nothing matches.
\<close>

definition offsets_FindOne ::
  "(OffsetDoc \<Rightarrow> bool) \<Rightarrow> world \<Rightarrow> (error + OffsetDoc) \<times> world" where
  "offsets_FindOne flt w =
     (case next_fault w of
        (Some e, w1) \<Rightarrow> (Inl e, w1)
      | (None, w1) \<Rightarrow>
          (case filter flt (offsets w1) of
             [] \<Rightarrow> (Inl ErrNoDocuments, w1)
           | d # ds \<Rightarrow> (Inr d, w1)))"

definition loadGTID_attempt :: "string \<Rightarrow> string \<times> world \<Rightarrow> error option \<times> string \<times> world" where
  "loadGTID_attempt src gw =
     (case gw of (g, w) \<Rightarrow>
        (case offsets_FindOne (\<lambda>d. off_id d = src) w of
           (Inr d, w1) \<Rightarrow> (None, off_gtid d, w1)
         | (Inl err, w1) \<Rightarrow>
             (case offsets_FindOne (\<lambda>d. off_source d = src) w1 of
                (r2, w2) \<Rightarrow>
                  (let g2 = (case r2 of Inr d \<Rightarrow> off_gtid d | Inl e2 \<Rightarrow> g)
                   in if err \<noteq> ErrNoDocuments then (Some err, g2, w2) else (None, g2, w2)))))"

definition loadGTID :: "context \<Rightarrow> string \<Rightarrow> world \<Rightarrow> (string \<times> bool \<times> error option) \<times> world" where
  "loadGTID ctx src w =
     (case retryWithBackoff (loadGTID_attempt src)
             (\<lambda>d gw. case gw of (g, w1) \<Rightarrow> (case sleep_ctx ctx d w1 of (r, w2) \<Rightarrow> (r, g, w2)))
             5 (100 * Millisecond) ([], w) of
        (err, tr, g, w1) \<Rightarrow>
          if err \<noteq> None \<and> err \<noteq> Some ErrNoDocuments then (([], False, err), w1)
          else if g = [] then (([], False, None), w1)
          else ((g, True, None), w1))"

text \<open>
  The replication reader is the library's: \<^verbatim>\<open>GetMasterGTIDSet\<close> answers what the
  world holds, and \<^verbatim>\<open>StartFromGTID\<close> starts the reader, noted in
  \<open>reader_started\<close> with the position and the clock reading, and answers the error
  the reader ends with. \<^verbatim>\<open>mysql.ParseGTIDSet\<close> is the parameter \<open>ParseGTIDSet\<close>.
\<close>

definition GetMasterGTIDSet :: "world \<Rightarrow> (error + string) \<times> world" where
  "GetMasterGTIDSet w = (master_gtid w, w)"

definition StartFromGTID :: "string \<Rightarrow> world \<Rightarrow> error option \<times> world" where
  "StartFromGTID gset w = (reader_result w, w\<lparr>reader_started := reader_started w @ [(gset, clock w)]\<rparr>)"

text \<open>
  The goroutine of \<^verbatim>\<open>main\<close> (lines 707 to 739); its result is the error it sends
  on \<^verbatim>\<open>errChan\<close>. \<open>resume\<close> is the part after the call of Recovery (lines 714 to
  738).
\<close>

definition resume :: "(string \<Rightarrow> error + string) \<Rightarrow> string \<Rightarrow> world \<Rightarrow> error option \<times> world" where
  "resume ParseGTIDSet src w =
     (case loadGTID None src w of
        ((gtidStr, ok, ignored), w1) \<Rightarrow>
          if ok \<and> gtidStr \<noteq> [] then
            (case ParseGTIDSet gtidStr of
               Inl err \<Rightarrow> (Some (Errorf ''parse GTID'' err), w1)
             | Inr gtidSet \<Rightarrow>
                 StartFromGTID gtidSet (log_Println (''Resuming from saved GTID: '' @ gtidStr) w1))
          else
            (case GetMasterGTIDSet w1 of
               (Inl err, w2) \<Rightarrow> (Some (Errorf ''GetMasterGTIDSet'' err), w2)
             | (Inr gset, w2) \<Rightarrow>
                 StartFromGTID gset (log_Println (''Starting from master's GTID set: '' @ gset) w2)))"

definition startup :: "(string \<Rightarrow> error + string) \<Rightarrow> string \<Rightarrow> world \<Rightarrow> error option \<times> world" where
  "startup ParseGTIDSet src w =
     (case RecoverPendingBatches w of
        (Some err, w1) \<Rightarrow>
          resume ParseGTIDSet src
            (log_Println (''Warning: Could not recover pending batches: '' @ error_string err) w1)
      | (None, w1) \<Rightarrow> resume ParseGTIDSet src w1)"

section \<open>Example operations\<close>




text \<open>
  A table whose third column is generated and so is not carried in the log, a row of
  it, and the row after an update of the name.
\<close>

definition example_columns :: "string list" where
  "example_columns = [''id'', ''name'', ''name_upper'']"

definition example_row :: "any list" where
  "example_row = [AInt 7, AString ''ann'']"

definition example_after :: "any list" where
  "example_after = [AInt 7, AString ''bob'']"

text \<open>
  The table of the example, an update event of it with one pair of rows, the same
  event with a third row that has no partner, a handler as \<^verbatim>\<open>main\<close> builds it
  (with the time zone loaded) after a first position was synced, and a healthy, empty
  store.
\<close>

definition example_table :: Table where
  "example_table = \<lparr>Schema = ''shop'', Name = ''customers'', Columns = example_columns,
                     PKColumns = [0]\<rparr>"

definition example_update :: RowsEvent where
  "example_update = \<lparr>Table = example_table, Action = UpdateAction,
                      Rows = [example_row, example_after], Timestamp = 1700000000\<rparr>"

definition example_torn_update :: RowsEvent where
  "example_torn_update = \<lparr>Table = example_table, Action = UpdateAction,
                           Rows = [example_row, example_after, example_row],
                           Timestamp = 1700000000\<rparr>"

definition example_handler :: Handler where
  "example_handler = \<lparr>source = ''mysql://127.0.0.1:3306'', batch = [],
                       lastFile = ''mysql-bin.000001'', lastPos = 4, lastGTID = ''uuid:1-5'',
                       loc = Some (\<lambda>t. 19800), batchFile = [], batchPos = 0, batchGTID = [],
                       tableSchemas = Map.empty\<rparr>"

definition healthy_store :: world where
  "healthy_store = \<lparr>events = [], offsets = [], staging = [], clock = 1700000000000000000,
                     faults = [], logs = [], noTxWarningLogged = False,
                     master_gtid = Inr ''uuid:1-5'', reader_result = None, reader_started = []\<rparr>"

text \<open>
  An event document as \<^verbatim>\<open>addDoc\<close> builds it for an insert of the example row, a
  handler that holds it in its batch, and a store whose next driver call is refused.
\<close>

definition example_doc :: EventDoc where
  "example_doc =
     newEventDoc (\<lambda>s. s) example_handler (\<lambda>t. 19800) ''shop'' ''customers'' (Unix 1700000000)
       (AInt 7) [(''id'', \<lparr>F = ANil, T = AInt 7\<rparr>), (''name'', \<lparr>F = ANil, T = AString ''ann''\<rparr>)] ''i''"

definition loaded_handler :: Handler where
  "loaded_handler = example_handler\<lparr>batch := [example_doc], batchFile := ''mysql-bin.000001'',
                                     batchPos := 4, batchGTID := ''uuid:1-5'',
                                     tableSchemas := [''shop.customers'' \<mapsto> example_columns]\<rparr>"

definition refusing_store :: world where
  "refusing_store = healthy_store\<lparr>faults := [Some (OtherError ''connection refused'')]\<rparr>"

text \<open>
  A store that already holds the example document (an earlier attempt wrote it), and
  a store whose bulk insert will report a duplicate and a failed validation.
\<close>

definition replayed_store :: world where
  "replayed_store = healthy_store\<lparr>events := [example_doc]\<rparr>"

definition rejecting_store :: world where
  "rejecting_store =
     healthy_store\<lparr>faults := [None, Some (BulkWriteException_value [11000, 121]
                                        ''Document failed validation'')]\<rparr>"

text \<open>
  A store that takes the staging insert and starts the session, and whose bulk insert
  then fails with a network timeout, an error with \<^verbatim>\<open>Temporary() = true\<close>; every
  later call is healthy.
\<close>

definition timeout_store :: world where
  "timeout_store =
     healthy_store\<lparr>faults := [None, None,
                                Some (TemporaryError True ''read tcp 127.0.0.1:27017: i/o timeout'')]\<rparr>"

text \<open>
  A relation between the store before and after a step, for stating what the step
  leaves alone: the step only consumed the fault schedule and let the clock move
  forward.
\<close>

definition quiet :: "world \<Rightarrow> world \<Rightarrow> bool" where
  "quiet w w1 = (w1 = w\<lparr>clock := clock w1, faults := faults w1\<rparr> \<and> clock w \<le> clock w1)"

text \<open>
  A store after a crash between the staging insert and the mark of one batch: the
  staging collection holds that batch, still pending, and an older committed one.
\<close>

definition pending_batch :: StagingDoc where
  "pending_batch =
     \<lparr>st_id = ''mysql://127.0.0.1:3306_1699999999000000000_uuid:1-5'', st_events = [example_doc],
      st_source = ''mysql://127.0.0.1:3306'', st_gtid = ''uuid:1-5'', st_file = ''mysql-bin.000001'',
      st_pos = 4, createdAt = 1699999999000000001, status = ''pending'', committedAt = None,
      archivedAt = None\<rparr>"

definition committed_batch :: StagingDoc where
  "committed_batch =
     \<lparr>st_id = ''mysql://127.0.0.1:3306_1699999998000000000_uuid:1-4'', st_events = [],
      st_source = ''mysql://127.0.0.1:3306'', st_gtid = ''uuid:1-4'', st_file = ''mysql-bin.000001'',
      st_pos = 4, createdAt = 1699999998000000001, status = ''committed'',
      committedAt = Some 1699999998000000002, archivedAt = None\<rparr>"

definition crashed_store :: world where
  "crashed_store = healthy_store\<lparr>staging := [committed_batch, pending_batch]\<rparr>"

text \<open>
  The shape of a text: every decimal digit replaced by \<open>9\<close>. A text has the form
  \<^verbatim>\<open>YYYY-MM-DD HH:MM:SS\<close> when its shape is \<open>9999-99-99 99:99:99\<close>.
\<close>

definition is_digit :: "char \<Rightarrow> bool" where
  "is_digit c = (c \<in> set ''0123456789'')"

definition digit_shape :: "string \<Rightarrow> string" where
  "digit_shape s = map (\<lambda>c. if is_digit c then CHR ''9'' else c) s"

text \<open>
  What claim C8 asks of an event document, for the configured location \<open>l\<close>: its
  encoding has the field \<open>ts_ist\<close>, holding the document's timestamp formatted in \<open>l\<close>,
  a text of the form \<^verbatim>\<open>YYYY-MM-DD HH:MM:SS\<close>.
\<close>

definition ts_ist_ok :: "location \<Rightarrow> EventDoc \<Rightarrow> bool" where
  "ts_ist_ok l d =
     (map_of (bson_EventDoc d) ''ts_ist'' = Some (BString (format_datetime l (TS d))) \<and>
      digit_shape (format_datetime l (TS d)) = ''9999-99-99 99:99:99'')"

text \<open>The insert event that adds the example row to the example table.\<close>

definition example_insert :: RowsEvent where
  "example_insert = \<lparr>Table = example_table, Action = InsertAction, Rows = [example_row],
                      Timestamp = 1700000000\<rparr>"

text \<open>
  The driver call that is \<open>k\<close> calls ahead is not refused: the fault schedule holds no
  error at position \<open>k\<close>.
\<close>

definition call_succeeds :: "error option list \<Rightarrow> nat \<Rightarrow> bool" where
  "call_succeeds fs k = (case drop k fs of [] \<Rightarrow> True | f # rest \<Rightarrow> f = None)"

text \<open>
  The store after the crash when the connection drops during Recovery: the query and
  the reading of the cursor are answered, the first update is refused.
\<close>

definition unreliable_crashed_store :: world where
  "unreliable_crashed_store =
     crashed_store\<lparr>faults := [None, None, Some (OtherError ''connection reset by peer'')]\<rparr>"

text \<open>
  The offset record of an earlier run, and the store that refuses Recovery's query
  while holding that record.
\<close>

definition saved_offset :: OffsetDoc where
  "saved_offset =
     \<lparr>off_id = ''mysql://127.0.0.1:3306'', off_source = ''mysql://127.0.0.1:3306'',
      off_gtid = ''uuid:1-3'', off_file = ''mysql-bin.000001'', off_pos = 4,
      updatedAt = 1699999990000000000\<rparr>"

definition refusing_saved_store :: world where
  "refusing_saved_store = refusing_store\<lparr>offsets := [saved_offset]\<rparr>"

text \<open>
  The same store when the query for the offset record by \<^verbatim>\<open>_id\<close> is refused as
  well; the query by the field \<^verbatim>\<open>source\<close> that follows is answered.
\<close>

definition unreachable_saved_store :: world where
  "unreachable_saved_store =
     refusing_saved_store\<lparr>faults := [Some (OtherError ''connection refused''),
                                     Some (OtherError ''connection refused'')]\<rparr>"

section \<open>The retry harness: attempts, delays and terminal errors\<close>

declare retry_loop.simps [simp del]

lemma retry_loop_cases:
  assumes "retry_loop fn sleep N a d l w = (r, tr, w')"
  obtains
    (stop) "\<not> a \<le> N" "r = l" "tr = []" "w' = w"
  | (ok) "a \<le> N" "fn w = (None, w')" "r = None" "tr = [Attempt None]"
  | (final) err where "a \<le> N" "fn w = (Some err, w')" "r = Some err" "tr = [Attempt (Some err)]"
      "isCancellation err \<or> a \<ge> N \<or> \<not> isTransient err"
  | (interrupted) err w1 ctxErr where "a < N" "fn w = (Some err, w1)" "\<not> isCancellation err"
      "isTransient err" "sleep d w1 = (Some ctxErr, w')" "r = Some ctxErr"
      "tr = [Attempt (Some err), Sleep d]"
  | (again) err w1 w2 tr2 where "a < N" "fn w = (Some err, w1)" "\<not> isCancellation err"
      "isTransient err" "sleep d w1 = (None, w2)"
      "retry_loop fn sleep N (a + 1)
         (if wrap64 (d * 2) > 10 * Second then 10 * Second else wrap64 (d * 2)) (Some err) w2
       = (r, tr2, w')"
      "tr = Attempt (Some err) # Sleep d # tr2"
proof -
  note eq = retry_loop.simps [of fn sleep N a d l w]
  show thesis
  proof (cases "a \<le> N")
    case False
    with assms eq stop show thesis by simp
  next
    case aN: True
    obtain ro w1 where f: "fn w = (ro, w1)" by (cases "fn w")
    show thesis
    proof (cases ro)
      case None
      with assms eq aN f ok show thesis by simp
    next
      case (Some err)
      show thesis
      proof (cases "isCancellation err \<or> a \<ge> N \<or> \<not> isTransient err")
        case True
        with assms eq aN f Some final [of err] show thesis by (auto split: if_splits)
      next
        case nf: False
        obtain so w2 where s: "sleep d w1 = (so, w2)" by (cases "sleep d w1")
        show thesis
        proof (cases so)
          case (Some ctxErr)
          with assms eq aN f \<open>ro = Some err\<close> nf s interrupted [of err w1 ctxErr] show thesis
            by (auto split: if_splits)
        next
          case None
          obtain r2 tr2 w3 where rec: "retry_loop fn sleep N (a + 1)
             (if wrap64 (d * 2) > 10 * Second then 10 * Second else wrap64 (d * 2)) (Some err) w2
             = (r2, tr2, w3)" by (metis prod_cases3)
          with assms eq aN f \<open>ro = Some err\<close> nf s None again [of err w1 w2 tr2] show thesis
            by (auto simp: Let_def split: if_splits)
        qed
      qed
    qed
  qed
qed








section \<open>The event id\<close>

declare nat_dec.simps [simp del]

lemma digit_char_eq_iff: "digit_char a = digit_char b \<longleftrightarrow> a mod 10 = b mod 10"
proof
  assume "digit_char a = digit_char b"
  then have "of_char (digit_char a) = (of_char (digit_char b) :: nat)" by simp
  then have "(48 + a mod 10) mod 256 = (48 + b mod 10) mod 256"
    by (simp add: digit_char_def)
  moreover have "48 + a mod 10 < 256" "48 + b mod 10 < 256"
    by (simp_all add: less_le_trans [OF add_strict_left_mono [OF mod_less_divisor]])
  ultimately show "a mod 10 = b mod 10" by simp
qed (simp add: digit_char_def)

lemma digit_char_not_minus: "digit_char a \<noteq> CHR ''-''"
proof
  assume "digit_char a = CHR ''-''"
  then have "of_char (digit_char a) = (of_char CHR ''-'' :: nat)" by simp
  moreover have "48 + a mod 10 < 256"
    by (simp add: less_le_trans [OF add_strict_left_mono [OF mod_less_divisor]])
  ultimately show False by (simp add: digit_char_def)
qed

lemma nat_dec_not_Nil: "nat_dec n \<noteq> []" "[] \<noteq> nat_dec n"
  by (subst nat_dec.simps, simp)+

lemma nat_dec_no_minus: "CHR ''-'' \<notin> set (nat_dec n)"
proof (induction n rule: nat_dec.induct)
  case (1 n)
  then show ?case
    using digit_char_not_minus [of n] by (subst nat_dec.simps) (auto simp del: One_nat_def)
qed

lemma nat_dec_inj: "nat_dec m = nat_dec n \<Longrightarrow> m = n"
proof (induction m arbitrary: n rule: nat_dec.induct)
  case (1 m)
  show ?case
  proof (cases "m < 10")
    case m: True
    show ?thesis
    proof (cases "n < 10")
      case True
      with m "1.prems" have "digit_char m = digit_char n"
        by (simp add: nat_dec.simps [of m] nat_dec.simps [of n])
      with m True show ?thesis by (simp add: digit_char_eq_iff)
    next
      case False
      with m "1.prems" show ?thesis
        by (simp add: nat_dec.simps [of m] nat_dec.simps [of n] nat_dec_not_Nil)
    qed
  next
    case m: False
    show ?thesis
    proof (cases "n < 10")
      case True
      with m "1.prems" show ?thesis
        by (simp add: nat_dec.simps [of m] nat_dec.simps [of n] nat_dec_not_Nil)
    next
      case False
      with m "1.prems" have "nat_dec (m div 10) = nat_dec (n div 10)" "digit_char m = digit_char n"
        by (simp_all add: nat_dec.simps [of m] nat_dec.simps [of n])
      with "1.IH" [OF m] have "m div 10 = n div 10" "m mod 10 = n mod 10"
        by (simp_all add: digit_char_eq_iff)
      then show ?thesis by (metis div_mult_mod_eq)
    qed
  qed
qed

lemma int_dec_inj: "int_dec i = int_dec j \<Longrightarrow> i = j"
proof -
  assume eq: "int_dec i = int_dec j"
  have hd: "nat_dec n \<noteq> CHR ''-'' # s" for n s
    using nat_dec_no_minus [of n] by (metis list.set_intros(1))
  show ?thesis
  proof (cases "i < 0")
    case i: True
    show ?thesis
    proof (cases "j < 0")
      case True
      with i eq have "nat (- i) = nat (- j)" by (auto simp: int_dec_def dest: nat_dec_inj)
      with i True show ?thesis by simp
    next
      case False
      with i eq hd [of "nat j"] show ?thesis by (simp add: int_dec_def) metis
    qed
  next
    case i: False
    show ?thesis
    proof (cases "j < 0")
      case True
      with i eq hd [of "nat i"] show ?thesis by (simp add: int_dec_def)
    next
      case False
      with i eq have "nat i = nat j" by (auto simp: int_dec_def dest: nat_dec_inj)
      with i False show ?thesis by simp
    qed
  qed
qed

text \<open>
  Claim C7, as the code has it. The id is the hash of \<open>id_string\<close> of the tuple, so equal
  tuples give equal ids. Changing one of db, table, ts, op, file, offset or position
  token, the others fixed, changes the hashed string. Changing the primary key changes
  the hashed string exactly when the two keys print differently under \<^verbatim>\<open>%v\<close>.
\<close>

theorem makeID_depends_on_components:
  "makeID sha1_hex db tbl pk ts op file pos gtid
     = sha1_hex (id_string db tbl pk ts op file pos gtid) \<and>
   (id_string db tbl pk ts op file pos gtid = id_string db' tbl pk ts op file pos gtid
      \<longleftrightarrow> db = db') \<and>
   (id_string db tbl pk ts op file pos gtid = id_string db tbl' pk ts op file pos gtid
      \<longleftrightarrow> tbl = tbl') \<and>
   (id_string db tbl pk ts op file pos gtid = id_string db tbl pk ts' op file pos gtid
      \<longleftrightarrow> ts = ts') \<and>
   (id_string db tbl pk ts op file pos gtid = id_string db tbl pk ts op' file pos gtid
      \<longleftrightarrow> op = op') \<and>
   (id_string db tbl pk ts op file pos gtid = id_string db tbl pk ts op file' pos gtid
      \<longleftrightarrow> file = file') \<and>
   (id_string db tbl pk ts op file pos gtid = id_string db tbl pk ts op file pos' gtid
      \<longleftrightarrow> pos = pos') \<and>
   (id_string db tbl pk ts op file pos gtid = id_string db tbl pk ts op file pos gtid'
      \<longleftrightarrow> gtid = gtid') \<and>
   (id_string db tbl pk ts op file pos gtid = id_string db tbl pk' ts op file pos gtid
      \<longleftrightarrow> toS pk = toS pk')"
proof -
  have ts: "int_dec ts = int_dec ts' \<longleftrightarrow> ts = ts'"
    using int_dec_inj by blast
  have pos: "nat_dec (unat pos) = nat_dec (unat pos') \<longleftrightarrow> pos = pos'"
    using nat_dec_inj by (auto simp: word_unat_eq_iff)
  show ?thesis
    by (simp add: makeID_def id_string_def ts pos)
qed

text \<open>
  Claim C7 as stated fails at the primary key: the integer key 1 and the string key
  \<open>''1''\<close> are different components and the hashed string is the same.
\<close>

theorem makeID_counterexample:
  "AInt 1 \<noteq> AString ''1'' \<and>
   id_string ''shop'' ''orders'' (AInt 1) 1700000000000000000 ''i'' ''mysql-bin.000001'' 4 ''uuid:1-5''
     = id_string ''shop'' ''orders'' (AString ''1'') 1700000000000000000 ''i'' ''mysql-bin.000001'' 4 ''uuid:1-5''"
proof -
  have "char_of (49::nat) = CHR ''1''"
    by code_simp
  then have "int_dec 1 = ''1''"
    by (simp add: int_dec_def nat_dec.simps digit_char_def)
  then show ?thesis
    by (simp add: id_string_def)
qed

section \<open>The change map\<close>

declare insert_cols.simps [simp del] delete_cols.simps [simp del] update_cols.simps [simp del]

text \<open>A run of map assignments: the last assignment to a key is the one that is read.\<close>

lemma map_of_fold_update:
  "map_of (fold (\<lambda>j. AList.update (k j) (v j)) js al) name =
     (case filter (\<lambda>j. k j = name) (rev js) of [] \<Rightarrow> map_of al name | j # js' \<Rightarrow> Some (v j))"
proof (induction js rule: rev_induct)
  case Nil
  show ?case by simp
next
  case (snoc x js)
  then show ?case by (simp add: update_conv')
qed

lemma distinct_fold_update:
  "distinct (map fst al) \<Longrightarrow> distinct (map fst (fold (\<lambda>j. AList.update (k j) (v j)) js al))"
  by (induction js rule: rev_induct) (simp_all add: distinct_update)

lemma dom_fold_update:
  "fst ` set (fold (\<lambda>j. AList.update (k j) (v j)) js al) = fst ` set al \<union> k ` set js"
  by (induction js rule: rev_induct) (auto simp: dom_update)

lemma map_of_fold_update_last:
  assumes "j \<in> set js" "sorted js" "distinct js" "\<forall>j' \<in> set js. j < j' \<longrightarrow> k j' \<noteq> k j"
  shows "map_of (fold (\<lambda>j. AList.update (k j) (v j)) js al) (k j) = Some (v j)"
  using assms
proof (induction js rule: rev_induct)
  case Nil
  then show ?case by simp
next
  case (snoc x js)
  show ?case
  proof (cases "x = j")
    case True
    then show ?thesis by (simp add: update_conv')
  next
    case False
    with snoc.prems have jin: "j \<in> set js" by simp
    from snoc.prems(2) jin have "j \<le> x" by (auto simp: sorted_append)
    with False have "j < x" by simp
    with snoc.prems(4) have ne: "k x \<noteq> k j" by simp
    have "map_of (fold (\<lambda>j. AList.update (k j) (v j)) js al) (k j) = Some (v j)"
      using snoc.IH jin snoc.prems by (auto simp: sorted_append)
    with ne show ?thesis by (simp add: update_conv')
  qed
qed



lemma update_cols_fold:
  "maxIdx \<le> length colNames \<Longrightarrow> maxIdx \<le> length before \<Longrightarrow> maxIdx \<le> length after \<Longrightarrow>
   update_cols colNames before after c maxIdx chg =
     Some (fold (\<lambda>j. AList.update (colNames ! j) \<lparr>F = before ! j, T = after ! j\<rparr>)
             (filter (\<lambda>j. \<not> DeepEqual (before ! j) (after ! j)) [c..<maxIdx]) chg)"
proof (induction colNames before after c maxIdx chg rule: update_cols.induct)
  case (1 colNames before after c maxIdx chg)
  show ?case
  proof (cases "c < maxIdx")
    case True
    with "1.prems" have ix: "index colNames c = Some (colNames ! c)"
      "index before c = Some (before ! c)" "index after c = Some (after ! c)"
      by (simp_all add: index_def)
    show ?thesis
    proof (cases "DeepEqual (before ! c) (after ! c)")
      case eq: True
      from "1.IH"(2) [OF True refl ix(2) ix(3)] eq "1.prems" True ix
      show ?thesis
        by (subst update_cols.simps) (simp add: upt_conv_Cons)
    next
      case ne: False
      from "1.IH"(1) [OF True refl ix(2) ix(3) ne ix(1)]
        ne "1.prems" True ix
      show ?thesis
        by (subst update_cols.simps) (simp add: upt_conv_Cons)
    qed
  next
    case False
    then show ?thesis by (subst update_cols.simps) simp
  qed
qed



lemma update_chg_columnwise:
  "\<exists>chg. update_chg colNames before after = Some chg \<and> distinct (map fst chg) \<and>
     fst ` set chg =
       {colNames ! c | c. c < min (length colNames) (min (length before) (length after)) \<and>
                          \<not> DeepEqual (before ! c) (after ! c)} \<and>
     (\<forall>c < min (length colNames) (min (length before) (length after)).
        \<not> DeepEqual (before ! c) (after ! c) \<and>
        (\<forall>j. c < j \<and> j < min (length colNames) (min (length before) (length after)) \<and>
              \<not> DeepEqual (before ! j) (after ! j) \<longrightarrow> colNames ! j \<noteq> colNames ! c)
        \<longrightarrow> map_of chg (colNames ! c) = Some \<lparr>F = before ! c, T = after ! c\<rparr>)"
proof -
  let ?m = "min (length colNames) (min (length before) (length after))"
  let ?js = "filter (\<lambda>j. \<not> DeepEqual (before ! j) (after ! j)) [0..<?m]"
  let ?chg = "fold (\<lambda>j. AList.update (colNames ! j) \<lparr>F = before ! j, T = after ! j\<rparr>) ?js []"
  have mm: "(if length after < (if length before < length colNames then length before
                                else length colNames)
             then length after
             else (if length before < length colNames then length before else length colNames))
            = ?m"
    by simp
  have run: "update_chg colNames before after = Some ?chg"
    unfolding update_chg_def Let_def mm by (rule update_cols_fold) simp_all
  have dist: "distinct (map fst ?chg)"
    by (rule distinct_fold_update) simp
  have keys: "fst ` set ?chg =
      {colNames ! c | c. c < ?m \<and> \<not> DeepEqual (before ! c) (after ! c)}"
    by (auto simp: dom_fold_update)
  have vals: "map_of ?chg (colNames ! c) = Some \<lparr>F = before ! c, T = after ! c\<rparr>"
    if "c < ?m" "\<not> DeepEqual (before ! c) (after ! c)"
      "\<forall>j. c < j \<and> j < ?m \<and> \<not> DeepEqual (before ! j) (after ! j) \<longrightarrow> colNames ! j \<noteq> colNames ! c"
    for c
    using that
    by (intro map_of_fold_update_last [where k = "\<lambda>j. colNames ! j"
          and v = "\<lambda>j. \<lparr>F = before ! j, T = after ! j\<rparr>"]) (auto simp: sorted_wrt_filter)
  from run dist keys vals show ?thesis by blast
qed

lemma example_insert_chg:
  "insert_chg example_columns example_row
     = Some [(''id'', \<lparr>F = ANil, T = AInt 7\<rparr>), (''name'', \<lparr>F = ANil, T = AString ''ann''\<rparr>)]"
  by (simp add: insert_chg_def insert_cols.simps index_def example_columns_def example_row_def)




section \<open>Pairing the rows of an update event\<close>

declare update_rows.simps [simp del]

lemma update_chg_Some: "\<exists>chg. update_chg colNames before after = Some chg"
  using update_chg_columnwise [of colNames before after] by blast

lemma addDoc_Panic:
  "addDoc sha1_hex db tbl ts pk chg op h w = (Panic m, h', w') \<Longrightarrow>
   m = ''time: missing Location in call to Time.In''"
  by (auto simp: addDoc_def Let_def split: option.splits if_splits prod.splits)

lemma addDoc_small_batch:
  assumes "loc h = Some l" "length (batch h) + 1 < 100"
  shows "\<exists>h'. addDoc sha1_hex db tbl ts pk chg op h w = (Return None, h', w) \<and> loc h' = Some l \<and>
           length (batch h') = length (batch h) + 1"
  using assms by (simp add: addDoc_def Let_def)

lemma update_rows_in_bounds:
  "even (length (Rows e)) \<Longrightarrow> even i \<Longrightarrow>
   fst (update_rows sha1_hex e i h w) \<noteq> Panic ''index out of range''"
proof (induction sha1_hex e i h w rule: update_rows.induct)
  case (1 sha1_hex e i h w)
  show ?case
  proof (cases "i < length (Rows e)")
    case False
    then show ?thesis by (subst update_rows.simps) simp
  next
    case True
    with "1.prems" have i1: "i + 1 < length (Rows e)"
      by (metis One_nat_def Suc_lessI add.right_neutral add_Suc_right even_Suc)
    from True i1 have ix: "index (Rows e) i = Some (Rows e ! i)"
      "index (Rows e) (i + 1) = Some (Rows e ! (i + 1))"
      by (simp_all add: index_def)
    obtain chg where chg: "update_chg (Columns (Table e)) (Rows e ! i) (Rows e ! (i + 1)) = Some chg"
      using update_chg_Some by blast
    obtain r h1 w1 where ad: "addDoc sha1_hex (Schema (Table e)) (Name (Table e))
        (Unix (uint (Timestamp e))) (pkVal (PKColumns (Table e)) (Rows e ! (i + 1))) chg ''u'' h w
        = (r, h1, w1)"
      by (metis prod_cases3)
    show ?thesis
    proof (cases r)
      case (Panic m)
      with ad addDoc_Panic have "m = ''time: missing Location in call to Time.In''" by blast
      with True ix chg ad Panic show ?thesis
        by (subst update_rows.simps) simp
    next
      case (Return ro)
      show ?thesis
      proof (cases ro)
        case (Some err)
        with True ix chg ad Return show ?thesis
          by (subst update_rows.simps) simp
      next
        case None
        have "fst (update_rows sha1_hex e (i + 2) h1 w1) \<noteq> Panic ''index out of range''"
          using "1.IH" [OF True refl ix(1) ix(2) chg ad [symmetric] Return None refl "1.prems"(1)]
            "1.prems"(2) by simp
        with True ix chg ad Return None show ?thesis
          by (subst update_rows.simps) simp
      qed
    qed
  qed
qed

lemma update_rows_unpaired:
  "odd (length (Rows e)) \<Longrightarrow> even i \<Longrightarrow> loc h = Some l \<Longrightarrow>
   length (batch h) + (length (Rows e) - i) div 2 < 100 \<Longrightarrow>
   i < length (Rows e) \<Longrightarrow>
   fst (update_rows sha1_hex e i h w) = Panic ''index out of range''"
proof (induction sha1_hex e i h w rule: update_rows.induct)
  case (1 sha1_hex e i h w)
  from "1.prems" have True: "i < length (Rows e)" by simp
  then have ix: "index (Rows e) i = Some (Rows e ! i)" by (simp add: index_def)
  show ?case
  proof (cases "i + 1 < length (Rows e)")
    case False
    then have "index (Rows e) (i + 1) = None" by (simp add: index_def)
    with True ix show ?thesis by (subst update_rows.simps) simp
  next
    case i1: True
    then have ix1: "index (Rows e) (i + 1) = Some (Rows e ! (i + 1))" by (simp add: index_def)
    from i1 "1.prems"(1,2) have i2: "i + 2 < length (Rows e)"
      by (metis Suc_lessI add_2_eq_Suc' add_Suc_right One_nat_def add.right_neutral even_Suc)
    obtain chg where chg: "update_chg (Columns (Table e)) (Rows e ! i) (Rows e ! (i + 1)) = Some chg"
      using update_chg_Some by blast
    from i2 "1.prems"(4) have small: "length (batch h) + 1 < 100" by linarith
    from addDoc_small_batch [OF "1.prems"(3) small] obtain h1 where
      ad: "addDoc sha1_hex (Schema (Table e)) (Name (Table e))
        (Unix (uint (Timestamp e))) (pkVal (PKColumns (Table e)) (Rows e ! (i + 1))) chg ''u'' h w
        = (Return None, h1, w)" and h1: "loc h1 = Some l" "length (batch h1) = length (batch h) + 1"
      by blast
    have rest: "length (batch h1) + (length (Rows e) - (i + 2)) div 2 < 100"
      using h1(2) "1.prems"(4) i2 by simp
    have "fst (update_rows sha1_hex e (i + 2) h1 w) = Panic ''index out of range''"
      using "1.IH" [OF True refl ix ix1 chg ad [symmetric] refl refl refl "1.prems"(1) _ h1(1) rest i2]
        "1.prems"(2) by simp
    with True ix ix1 chg ad show ?thesis
      by (subst update_rows.simps) simp
  qed
qed

text \<open>
  Claim C9. For an update event of a table with a primary key, \<^verbatim>\<open>OnRow\<close> reads
  \<^verbatim>\<open>e.Rows[i]\<close> and \<^verbatim>\<open>e.Rows[i+1]\<close> for the even \<open>i\<close> below the number of rows.
  When that number is even, no index expression of the call is out of range. When it
  is odd, the call does not survive the last row: with the time zone loaded and room
  in the batch for the pairs of the event (so that no commit ends the call earlier),
  it panics with an index out of range.
\<close>

theorem OnRow_update_pairs_in_bounds:
  assumes "Action e = UpdateAction" "length (PKColumns (Table e)) \<noteq> 0"
  shows "(even (length (Rows e)) \<longrightarrow>
            fst (OnRow sha1_hex e h w) \<noteq> Panic ''index out of range'') \<and>
         (odd (length (Rows e)) \<and> loc h \<noteq> None \<and>
          length (batch h) + length (Rows e) div 2 < 100 \<longrightarrow>
            fst (OnRow sha1_hex e h w) = Panic ''index out of range'')"
proof -
  from assms have run: "OnRow sha1_hex e h w = update_rows sha1_hex e 0 h w"
    by (simp add: OnRow_def InsertAction_def DeleteAction_def UpdateAction_def)
  have a: "fst (update_rows sha1_hex e 0 h w) \<noteq> Panic ''index out of range''"
    if "even (length (Rows e))"
    using update_rows_in_bounds [OF that, of 0] by simp
  have b: "fst (update_rows sha1_hex e 0 h w) = Panic ''index out of range''"
    if "odd (length (Rows e))" "loc h \<noteq> None" "length (batch h) + length (Rows e) div 2 < 100"
  proof -
    from that(2) obtain l where l: "loc h = Some l" by blast
    from that(1) have pos: "0 < length (Rows e)" by (cases "Rows e") simp_all
    show ?thesis
      using update_rows_unpaired [OF that(1) _ l _ pos, of sha1_hex w] that(3) by simp
  qed
  from a b show ?thesis unfolding run by blast
qed
text \<open>
  The theorem at the two example events: the event with one pair of rows is handled
  within bounds, the event with a third row panics.
\<close>

theorem OnRow_update_pairs_in_bounds_witness:
  "Action example_update = UpdateAction \<and>
   length (PKColumns (Table example_update)) \<noteq> 0 \<and>
   even (length (Rows example_update)) \<and>
   fst (OnRow (\<lambda>s. s) example_update example_handler healthy_store) \<noteq> Panic ''index out of range'' \<and>
   Action example_torn_update = UpdateAction \<and>
   length (PKColumns (Table example_torn_update)) \<noteq> 0 \<and>
   odd (length (Rows example_torn_update)) \<and>
   loc example_handler \<noteq> None \<and>
   length (batch example_handler) + length (Rows example_torn_update) div 2 < 100 \<and>
   fst (OnRow (\<lambda>s. s) example_torn_update example_handler healthy_store)
     = Panic ''index out of range''"
proof -
  have a: "Action example_update = UpdateAction"
    "length (PKColumns (Table example_update)) \<noteq> 0"
    "even (length (Rows example_update))"
    by (simp_all add: example_update_def example_table_def)
  have b: "Action example_torn_update = UpdateAction"
    "length (PKColumns (Table example_torn_update)) \<noteq> 0"
    "odd (length (Rows example_torn_update))"
    "loc example_handler \<noteq> None"
    "length (batch example_handler) + length (Rows example_torn_update) div 2 < 100"
    by (simp_all add: example_torn_update_def example_table_def example_handler_def)
  from OnRow_update_pairs_in_bounds [OF a(1,2), of "\<lambda>s. s" example_handler healthy_store] a(3)
  have ra: "fst (OnRow (\<lambda>s. s) example_update example_handler healthy_store)
      \<noteq> Panic ''index out of range''"
    by blast
  from OnRow_update_pairs_in_bounds [OF b(1,2), of "\<lambda>s. s" example_handler healthy_store] b(3,4,5)
  have rb: "fst (OnRow (\<lambda>s. s) example_torn_update example_handler healthy_store)
      = Panic ''index out of range''"
    by blast
  from a ra b rb show ?thesis by (intro conjI)
qed

section \<open>Schema change notifications\<close>

lemma Flush_tableSchemas:
  "Flush ctx h w = (r, h', w') \<Longrightarrow> tableSchemas h' = tableSchemas h"
  by (auto simp: Flush_def Let_def split: if_splits prod.splits option.splits)

text \<open>
  Claim C10. \<^verbatim>\<open>OnTableChanged\<close> returns \<^verbatim>\<open>nil\<close> whatever the flush does. The
  handler it leaves behind has the cache entry of the table removed and is otherwise
  the handler the flush left; when the flush fails, its error goes to the log as the
  last line and the batch is kept.
\<close>

theorem OnTableChanged_returns_nil:
  assumes "OnTableChanged schema table h w = (r, h', w')"
    and "Flush None (h\<lparr>tableSchemas := (tableSchemas h)(schema @ ''.'' @ table := None)\<rparr>)
           (log_Println (''Schema change detected: '' @ schema @ ''.'' @ table
                          @ '' - flushing batch for safety'') w) = (fr, fh, fw)"
  shows "r = None \<and>
         h' = fh \<and>
         tableSchemas h' = (tableSchemas h)(schema @ ''.'' @ table := None) \<and>
         (\<forall>err. fr = Some err \<longrightarrow>
            batch h' = batch h \<and>
            w' = log_Println (''Error flushing on schema change: '' @ error_string err) fw) \<and>
         (fr = None \<longrightarrow> batch h' = [] \<and> w' = fw)"
proof -
  from assms have res: "r = None" "h' = fh"
    by (auto simp: OnTableChanged_def Let_def split: option.splits)
  from Flush_tableSchemas [OF assms(2)] res
  have ts: "tableSchemas h' = (tableSchemas h)(schema @ ''.'' @ table := None)"
    by simp
  from assms have failed: "batch h' = batch h \<and>
      w' = log_Println (''Error flushing on schema change: '' @ error_string err) fw"
    if "fr = Some err" for err
    using that
    by (auto simp: OnTableChanged_def Flush_def Let_def split: option.splits if_splits prod.splits)
  from assms have flushed: "batch h' = [] \<and> w' = fw" if "fr = None"
    using that
    by (auto simp: OnTableChanged_def Flush_def Let_def split: option.splits if_splits prod.splits)
  from res ts failed flushed show ?thesis by blast
qed
lemma refused_Flush:
  "fst (Flush None
          (loaded_handler\<lparr>tableSchemas := (tableSchemas loaded_handler)(''shop'' @ ''.'' @ ''customers'' := None)\<rparr>)
          (log_Println (''Schema change detected: '' @ ''shop'' @ ''.'' @ ''customers''
                         @ '' - flushing batch for safety'') refusing_store))
     = Some (Errorf ''flush batch'' (Errorf ''staging insert'' (OtherError ''connection refused'')))"
  by (simp add: Flush_def writeBatchWithGTID_def Now_def retryWithBackoff_def retry_loop.simps
      commit_attempt_def staging_InsertOne_def next_fault_def log_Println_def isCancellation_def
      isTransient_def loaded_handler_def refusing_store_def healthy_store_def example_handler_def
      Let_def)

text \<open>
  The theorem at a handler with one document in its batch and a store that refuses the
  staging insert: the flush fails, the notification handler returns \<^verbatim>\<open>nil\<close>, the
  batch is kept, the cache entry is gone and the error is the last line of the log.
\<close>

theorem OnTableChanged_returns_nil_witness:
  "fst (Flush None
          (loaded_handler\<lparr>tableSchemas := (tableSchemas loaded_handler)(''shop'' @ ''.'' @ ''customers'' := None)\<rparr>)
          (log_Println (''Schema change detected: '' @ ''shop'' @ ''.'' @ ''customers''
                         @ '' - flushing batch for safety'') refusing_store))
     = Some (Errorf ''flush batch'' (Errorf ''staging insert'' (OtherError ''connection refused''))) \<and>
   fst (OnTableChanged ''shop'' ''customers'' loaded_handler refusing_store) = None \<and>
   batch (fst (snd (OnTableChanged ''shop'' ''customers'' loaded_handler refusing_store)))
     = batch loaded_handler \<and>
   tableSchemas (fst (snd (OnTableChanged ''shop'' ''customers'' loaded_handler refusing_store)))
     = (tableSchemas loaded_handler)(''shop'' @ ''.'' @ ''customers'' := None) \<and>
   last (logs (snd (snd (OnTableChanged ''shop'' ''customers'' loaded_handler refusing_store))))
     = ''Error flushing on schema change: flush batch: staging insert: connection refused''"
proof -
  obtain r h' w' where
    run: "OnTableChanged ''shop'' ''customers'' loaded_handler refusing_store = (r, h', w')"
    by (metis prod_cases3)
  obtain fr fh fw where
    fl: "Flush None
          (loaded_handler\<lparr>tableSchemas := (tableSchemas loaded_handler)(''shop'' @ ''.'' @ ''customers'' := None)\<rparr>)
          (log_Println (''Schema change detected: '' @ ''shop'' @ ''.'' @ ''customers''
                         @ '' - flushing batch for safety'') refusing_store) = (fr, fh, fw)"
    by (metis prod_cases3)
  with refused_Flush have fr: "fr = Some (Errorf ''flush batch''
      (Errorf ''staging insert'' (OtherError ''connection refused'')))"
    by simp
  note t = OnTableChanged_returns_nil [OF run fl]
  from t have 1: "r = None" by blast
  from t fr have 2: "batch h' = batch loaded_handler" by blast
  from t have 3: "tableSchemas h'
      = (tableSchemas loaded_handler)(''shop'' @ ''.'' @ ''customers'' := None)" by blast
  from t fr have "w' = log_Println (''Error flushing on schema change: ''
      @ error_string (Errorf ''flush batch''
          (Errorf ''staging insert'' (OtherError ''connection refused'')))) fw" by blast
  then have 4: "last (logs w')
      = ''Error flushing on schema change: flush batch: staging insert: connection refused''"
    by (simp add: log_Println_def)
  from refused_Flush 1 2 3 4 show ?thesis by (simp add: run)
qed

section \<open>Write errors of the bulk insert\<close>

lemma allDup_iff: "allDup codes \<longleftrightarrow> (\<forall>c \<in> set codes. c = 11000)"
  by (induction codes) auto

text \<open>
  The classification that \<^verbatim>\<open>writeBatch\<close>, the transaction callback and the fallback
  share (lines 156 to 171, 283 to 298 and 332 to 347), for an error \<open>err\<close> of the bulk
  insert. When the \<^verbatim>\<open>errors.As\<close> call accepts \<open>err\<close> and all its write errors have
  code 11000, the failure is dropped and the commit goes on with the upsert of the
  offset record. In every other case the commit returns \<open>err\<close> (the fallback returns
  it wrapped) and the transaction is rolled back.
\<close>

lemma bulk_write_classification:
  assumes "next_fault w0 = (None, w)" and "events_BulkWrite docs w = (Some err, w1)"
  shows
    "((\<exists>codes. as_BulkWriteException err = Some codes \<and> (\<forall>c \<in> set codes. c = 11000)) \<longrightarrow>
        transaction_body docs src gtid fl pos w
          = (map_option (Errorf ''save GTID'') (fst (save_offset src gtid fl pos w1)),
             snd (save_offset src gtid fl pos w1)) \<and>
        writeBatchWithoutTransaction docs src gtid fl pos w
          = (map_option (Errorf ''save GTID (non-transactional)'')
               (fst (save_offset src gtid fl pos w1)),
             snd (save_offset src gtid fl pos w1)) \<and>
        (length docs \<noteq> 0 \<longrightarrow> writeBatch docs w = (None, w1))) \<and>
     (\<not> (\<exists>codes. as_BulkWriteException err = Some codes \<and> (\<forall>c \<in> set codes. c = 11000)) \<longrightarrow>
        writeBatchWithTransaction docs src gtid fl pos w0 = (Some err, rollback w w1) \<and>
        events (rollback w w1) = events w \<and> offsets (rollback w w1) = offsets w \<and>
        writeBatchWithoutTransaction docs src gtid fl pos w
          = (Some (Errorf ''bulk write events'' err), w1) \<and>
        (length docs \<noteq> 0 \<longrightarrow> writeBatch docs w = (Some err, w1)))"
proof (intro conjI impI)
  assume dup: "\<exists>codes. as_BulkWriteException err = Some codes \<and> (\<forall>c \<in> set codes. c = 11000)"
  then obtain codes where codes: "as_BulkWriteException err = Some codes" "allDup codes"
    by (auto simp: allDup_iff)
  obtain sr sw where save: "save_offset src gtid fl pos w1 = (sr, sw)"
    by (cases "save_offset src gtid fl pos w1")
  show "transaction_body docs src gtid fl pos w
      = (map_option (Errorf ''save GTID'') (fst (save_offset src gtid fl pos w1)),
         snd (save_offset src gtid fl pos w1))"
    using assms(2) codes save by (cases sr) (simp_all add: transaction_body_def)
  show "writeBatchWithoutTransaction docs src gtid fl pos w
      = (map_option (Errorf ''save GTID (non-transactional)'')
           (fst (save_offset src gtid fl pos w1)),
         snd (save_offset src gtid fl pos w1))"
    using assms(2) codes save by (cases sr) (simp_all add: writeBatchWithoutTransaction_def)
  show "writeBatch docs w = (None, w1)" if "length docs \<noteq> 0"
    using that assms(2) codes by (simp add: writeBatch_def)
next
  assume other: "\<not> (\<exists>codes. as_BulkWriteException err = Some codes \<and> (\<forall>c \<in> set codes. c = 11000))"
  then have cls: "as_BulkWriteException err = None \<or>
      (\<exists>codes. as_BulkWriteException err = Some codes \<and> \<not> allDup codes)"
    by (cases "as_BulkWriteException err") (auto simp: allDup_iff)
  from cls assms(2) have body: "transaction_body docs src gtid fl pos w = (Some err, w1)"
    by (auto simp: transaction_body_def)
  with assms(1) show "writeBatchWithTransaction docs src gtid fl pos w0 = (Some err, rollback w w1)"
    by (simp add: writeBatchWithTransaction_def WithTransaction_def)
  show "events (rollback w w1) = events w" "offsets (rollback w w1) = offsets w"
    by (simp_all add: rollback_def)
  from cls assms(2) show "writeBatchWithoutTransaction docs src gtid fl pos w
      = (Some (Errorf ''bulk write events'' err), w1)"
    by (auto simp: writeBatchWithoutTransaction_def)
  show "writeBatch docs w = (Some err, w1)" if "length docs \<noteq> 0"
    using that cls assms(2) by (auto simp: writeBatch_def)
qed

text \<open>
  The error that the store's bulk insert returns is a bulk write exception held by
  value, which the pointer-typed target does not accept: whatever its write errors
  are, it falls into the second case.
\<close>

lemma events_BulkWrite_error:
  assumes "events_BulkWrite docs w = (Some err, w1)" and "fst (next_fault w) = None"
  shows "\<exists>codes. codes \<noteq> [] \<and>
           err = BulkWriteException_value codes ''bulk write exception: write errors'' \<and>
           as_BulkWriteException err = None"
  using assms
  by (auto simp: events_BulkWrite_def Let_def split: prod.splits option.splits if_splits)

lemma insert_unordered_replay:
  "\<forall>d \<in> set docs. ID d \<in> set (map ID coll) \<Longrightarrow>
   insert_unordered docs coll = (replicate (length docs) 11000, coll)"
  by (induction docs) simp_all

lemma allDup_replicate: "allDup (replicate n 11000)"
  by (induction n) simp_all

text \<open>
  So a replay fails. When every document of a non-empty batch is already in the
  events collection and the store refuses no call, the bulk insert reports one
  duplicate-key error per document and nothing else, and the commit returns that
  exception: the transaction is rolled back and the offset record is not written.
\<close>

lemma replay_aborts_commit:
  assumes "faults w = []" and "docs \<noteq> []"
    and "\<forall>d \<in> set docs. ID d \<in> set (map ID (events w))"
  shows "allDup (replicate (length docs) 11000) \<and>
         writeBatchWithTransaction docs src gtid fl pos w
           = (Some (BulkWriteException_value (replicate (length docs) 11000)
                      ''bulk write exception: write errors''), w) \<and>
         writeBatchWithoutTransaction docs src gtid fl pos w
           = (Some (Errorf ''bulk write events''
                (BulkWriteException_value (replicate (length docs) 11000)
                      ''bulk write exception: write errors'')), w) \<and>
         writeBatch docs w
           = (Some (BulkWriteException_value (replicate (length docs) 11000)
                      ''bulk write exception: write errors''), w)"
proof -
  from assms(1) have nf: "next_fault w = (None, w)" by (simp add: next_fault_def)
  from assms(2) have ne: "replicate (length docs) (11000 :: int) \<noteq> []" by simp
  have bulk: "events_BulkWrite docs w
      = (Some (BulkWriteException_value (replicate (length docs) 11000)
                 ''bulk write exception: write errors''), w)"
    using nf ne insert_unordered_replay [OF assms(3)] by (simp add: events_BulkWrite_def)
  have rb: "rollback w w = w" by (simp add: rollback_def)
  show ?thesis
    using nf bulk assms(2) allDup_replicate [of "length docs"]
    by (simp add: writeBatchWithTransaction_def WithTransaction_def transaction_body_def
        writeBatchWithoutTransaction_def writeBatch_def rb)
qed

text \<open>
  Claim C2 at a failing input. The example document is committed to the store that
  already holds it. The bulk insert fails with one write error, a duplicate key
  (11000). The claim says that the commit does not fail and goes on to upsert the
  offset record. The commit fails: the transaction callback, the fallback and
  \<^verbatim>\<open>writeBatch\<close> return the exception, and \<^verbatim>\<open>writeBatchWithGTID\<close> returns it after
  one attempt (it is not transient), with no offset record written and the batch
  left pending in the staging collection.
\<close>

theorem duplicate_only_bulk_insert_aborts_commit:
  "events_BulkWrite [example_doc] replayed_store
     = (Some (BulkWriteException_value [11000] ''bulk write exception: write errors''),
        replayed_store) \<and>
   writeBatchWithTransaction [example_doc] ''mysql://127.0.0.1:3306'' ''uuid:1-5''
          ''mysql-bin.000001'' 4 replayed_store
     = (Some (BulkWriteException_value [11000] ''bulk write exception: write errors''),
        replayed_store) \<and>
   writeBatchWithoutTransaction [example_doc] ''mysql://127.0.0.1:3306'' ''uuid:1-5''
          ''mysql-bin.000001'' 4 replayed_store
     = (Some (Errorf ''bulk write events''
          (BulkWriteException_value [11000] ''bulk write exception: write errors'')),
        replayed_store) \<and>
   writeBatch [example_doc] replayed_store
     = (Some (BulkWriteException_value [11000] ''bulk write exception: write errors''),
        replayed_store) \<and>
   fst (writeBatchWithGTID None [example_doc] ''mysql://127.0.0.1:3306'' ''uuid:1-5''
          ''mysql-bin.000001'' 4 replayed_store)
     = Some (BulkWriteException_value [11000] ''bulk write exception: write errors'') \<and>
   offsets (snd (writeBatchWithGTID None [example_doc] ''mysql://127.0.0.1:3306'' ''uuid:1-5''
          ''mysql-bin.000001'' 4 replayed_store)) = [] \<and>
   map status (staging (snd (writeBatchWithGTID None [example_doc] ''mysql://127.0.0.1:3306''
          ''uuid:1-5'' ''mysql-bin.000001'' 4 replayed_store))) = [''pending'']"
proof -
  have bulk: "events_BulkWrite [example_doc] replayed_store
     = (Some (BulkWriteException_value [11000] ''bulk write exception: write errors''),
        replayed_store)"
    by (simp add: next_fault_def events_BulkWrite_def replayed_store_def healthy_store_def)
  have nf: "next_fault replayed_store = (None, replayed_store)"
    by (simp add: next_fault_def replayed_store_def healthy_store_def)
  have rb: "rollback replayed_store replayed_store = replayed_store"
    by (simp add: rollback_def)
  have tx: "writeBatchWithTransaction [example_doc] ''mysql://127.0.0.1:3306'' ''uuid:1-5''
          ''mysql-bin.000001'' 4 replayed_store
     = (Some (BulkWriteException_value [11000] ''bulk write exception: write errors''),
        replayed_store)"
    by (simp add: writeBatchWithTransaction_def WithTransaction_def transaction_body_def
        nf bulk rb)
  have notx: "writeBatchWithoutTransaction [example_doc] ''mysql://127.0.0.1:3306'' ''uuid:1-5''
          ''mysql-bin.000001'' 4 replayed_store
     = (Some (Errorf ''bulk write events''
          (BulkWriteException_value [11000] ''bulk write exception: write errors'')),
        replayed_store)"
    by (simp add: writeBatchWithoutTransaction_def bulk)
  have wb: "writeBatch [example_doc] replayed_store
     = (Some (BulkWriteException_value [11000] ''bulk write exception: write errors''),
        replayed_store)"
    by (simp add: writeBatch_def bulk)
  have commit: "fst (writeBatchWithGTID None [example_doc] ''mysql://127.0.0.1:3306'' ''uuid:1-5''
          ''mysql-bin.000001'' 4 replayed_store)
     = Some (BulkWriteException_value [11000] ''bulk write exception: write errors'')"
    "offsets (snd (writeBatchWithGTID None [example_doc] ''mysql://127.0.0.1:3306'' ''uuid:1-5''
          ''mysql-bin.000001'' 4 replayed_store)) = []"
    "map status (staging (snd (writeBatchWithGTID None [example_doc] ''mysql://127.0.0.1:3306''
          ''uuid:1-5'' ''mysql-bin.000001'' 4 replayed_store))) = [''pending'']"
    by (simp_all add: writeBatchWithGTID_def Now_def retryWithBackoff_def retry_loop.simps
      commit_attempt_def staging_InsertOne_def next_fault_def writeBatchWithTransaction_def
      WithTransaction_def transaction_body_def events_BulkWrite_def rollback_def
      isCancellation_def isTransient_def replayed_store_def healthy_store_def
      Millisecond_def Let_def)
  from bulk tx notx wb commit show ?thesis by (intro conjI)
qed

text \<open>
  A bulk insert that reports a write error of another kind aborts the commit with
  that error, as the claim says.
\<close>

lemma other_write_error_aborts_commit:
  "writeBatchWithTransaction [example_doc] ''mysql://127.0.0.1:3306'' ''uuid:1-5''
          ''mysql-bin.000001'' 4 rejecting_store
     = (Some (BulkWriteException_value [11000, 121] ''Document failed validation''),
        rejecting_store\<lparr>faults := []\<rparr>)"
  by (simp add: writeBatchWithTransaction_def WithTransaction_def transaction_body_def
      events_BulkWrite_def next_fault_def rollback_def rejecting_store_def healthy_store_def)

section \<open>Retrying a commit after its staging insert\<close>

text \<open>
  Claim C1 at a failing input. One document is committed to a store whose first bulk
  insert fails with a network timeout (an error with \<^verbatim>\<open>Temporary() = true\<close>, which
  the harness takes for transient) and which is healthy afterwards. The staging
  insert of the first attempt succeeds; the harness waits and runs the closure again;
  the closure inserts the same staging document, built once before the harness was
  entered, and the store refuses the second document of that id. The commit returns
  the duplicate-key error of the staging insert, which is not transient, after one
  retry: no event is written and no offset is saved, and the batch stays pending.
\<close>

theorem writeBatchWithGTID_retry_restages_same_id:
  "fst (writeBatchWithGTID None [example_doc] ''mysql://127.0.0.1:3306'' ''uuid:1-5''
          ''mysql-bin.000001'' 4 timeout_store)
     = Some (Errorf ''staging insert'' (WriteException [11000] ''E11000 duplicate key error'')) \<and>
   events (snd (writeBatchWithGTID None [example_doc] ''mysql://127.0.0.1:3306'' ''uuid:1-5''
          ''mysql-bin.000001'' 4 timeout_store)) = [] \<and>
   offsets (snd (writeBatchWithGTID None [example_doc] ''mysql://127.0.0.1:3306'' ''uuid:1-5''
          ''mysql-bin.000001'' 4 timeout_store)) = [] \<and>
   map status (staging (snd (writeBatchWithGTID None [example_doc] ''mysql://127.0.0.1:3306''
          ''uuid:1-5'' ''mysql-bin.000001'' 4 timeout_store))) = [''pending''] \<and>
   faults (snd (writeBatchWithGTID None [example_doc] ''mysql://127.0.0.1:3306'' ''uuid:1-5''
          ''mysql-bin.000001'' 4 timeout_store)) = []"
  by (simp add: writeBatchWithGTID_def Now_def retryWithBackoff_def retry_loop.simps
      commit_attempt_def staging_InsertOne_def next_fault_def writeBatchWithTransaction_def
      WithTransaction_def transaction_body_def events_BulkWrite_def rollback_def sleep_ctx_def
      isCancellation_def isTransient_def timeout_store_def healthy_store_def
      Millisecond_def Second_def wrap64_def Let_def)
text \<open>
  A command error comes from the driver held by value, so the harness does not take
  it for transient whatever its code: only errors with a \<^verbatim>\<open>Temporary\<close> method reach
  the retry.
\<close>

lemma command_error_by_value_not_transient:
  "\<not> isTransient (CommandError_value code m)"
  by (simp add: isTransient_def)

text \<open>The same commit against the healthy store succeeds at the first attempt.\<close>

lemma writeBatchWithGTID_healthy:
  "fst (writeBatchWithGTID None [example_doc] ''mysql://127.0.0.1:3306'' ''uuid:1-5''
          ''mysql-bin.000001'' 4 healthy_store) = None \<and>
   events (snd (writeBatchWithGTID None [example_doc] ''mysql://127.0.0.1:3306'' ''uuid:1-5''
          ''mysql-bin.000001'' 4 healthy_store)) = [example_doc] \<and>
   map off_gtid (offsets (snd (writeBatchWithGTID None [example_doc] ''mysql://127.0.0.1:3306''
          ''uuid:1-5'' ''mysql-bin.000001'' 4 healthy_store))) = [''uuid:1-5''] \<and>
   map status (staging (snd (writeBatchWithGTID None [example_doc] ''mysql://127.0.0.1:3306''
          ''uuid:1-5'' ''mysql-bin.000001'' 4 healthy_store))) = [''committed'']"
  by (simp add: writeBatchWithGTID_def Now_def retryWithBackoff_def retry_loop.simps
      commit_attempt_def staging_InsertOne_def staging_UpdateByID_def next_fault_def
      writeBatchWithTransaction_def WithTransaction_def transaction_body_def events_BulkWrite_def
      save_offset_def offsets_Upsert_def healthy_store_def Millisecond_def Let_def)

text \<open>
  The general fact behind the failing input: the driver calls of Phase 2 and the wait
  leave the ids of the staging collection in place, so once an attempt has staged its
  document, every later attempt of the same closure fails at its staging insert, and
  the commit ends with an error.
\<close>

lemma next_fault_frame:
  "next_fault w = (f, w1) \<Longrightarrow>
   staging w1 = staging w \<and> events w1 = events w \<and> offsets w1 = offsets w"
  by (auto simp: next_fault_def split: list.splits)

lemma events_BulkWrite_staging:
  "events_BulkWrite docs w = (r, w1) \<Longrightarrow> staging w1 = staging w"
  by (auto simp: events_BulkWrite_def Let_def split: prod.splits option.splits
      dest: next_fault_frame)

lemma save_offset_staging:
  "save_offset src gtid file pos w = (r, w1) \<Longrightarrow> staging w1 = staging w"
  by (auto simp: save_offset_def offsets_Upsert_def Now_def Let_def
      split: prod.splits option.splits dest!: next_fault_frame)

lemma transaction_body_staging:
  "transaction_body docs src gtid file pos w = (r, w1) \<Longrightarrow> staging w1 = staging w"
  by (auto simp: transaction_body_def Let_def split: prod.splits option.splits if_splits
      dest!: events_BulkWrite_staging save_offset_staging)

lemma writeBatchWithTransaction_staging:
  "writeBatchWithTransaction docs src gtid file pos w = (r, w1) \<Longrightarrow> staging w1 = staging w"
  by (auto simp: writeBatchWithTransaction_def WithTransaction_def rollback_def
      split: prod.splits option.splits
      dest!: next_fault_frame transaction_body_staging)

lemma writeBatchWithoutTransaction_staging:
  "writeBatchWithoutTransaction docs src gtid file pos w = (r, w1) \<Longrightarrow> staging w1 = staging w"
  by (auto simp: writeBatchWithoutTransaction_def Let_def split: prod.splits option.splits if_splits
      dest!: events_BulkWrite_staging save_offset_staging)
lemma staging_UpdateByID_ids:
  "staging_UpdateByID i (\<lambda>d. d\<lparr>status := s, committedAt := c\<rparr>) w = (r, w1) \<Longrightarrow>
   map st_id (staging w1) = map st_id (staging w)"
  by (auto simp: staging_UpdateByID_def split: prod.splits option.splits dest!: next_fault_frame)

lemma sleep_ctx_staging:
  "sleep_ctx ctx d w = (r, w1) \<Longrightarrow> staging w1 = staging w"
  by (auto simp: sleep_ctx_def split: option.splits prod.splits if_splits)

lemma staging_InsertOne_ids:
  "staging_InsertOne doc w = (r, w1) \<Longrightarrow>
   set (map st_id (staging w)) \<subseteq> set (map st_id (staging w1)) \<and>
   (r = None \<longrightarrow> st_id doc \<in> set (map st_id (staging w1)))"
  by (auto simp: staging_InsertOne_def split: prod.splits option.splits if_splits
      dest!: next_fault_frame)

lemma commit_attempt_ids:
  assumes "commit_attempt batchID doc docs src gtid file pos w = (r, w1)"
  shows "set (map st_id (staging w)) \<subseteq> set (map st_id (staging w1)) \<and>
         (fst (staging_InsertOne doc w) = None \<longrightarrow> st_id doc \<in> set (map st_id (staging w1)))"
proof -
  obtain ir wi where ins: "staging_InsertOne doc w = (ir, wi)"
    by (cases "staging_InsertOne doc w")
  note ids = staging_InsertOne_ids [OF ins]
  show ?thesis
  proof (cases ir)
    case (Some e)
    with assms ins ids show ?thesis by (simp add: commit_attempt_def)
  next
    case None
    have mark: "map st_id (staging wm') = map st_id (staging wm)"
      if "(let (t, w2) = Now wm;
               (ignored, w3) = staging_UpdateByID batchID
                  (\<lambda>d. d\<lparr>status := ''committed'', committedAt := Some t\<rparr>) w2
           in (None :: error option, w3)) = (rm, wm')" for wm wm' rm
      using that
      by (auto simp: Now_def Let_def split: prod.splits dest!: staging_UpdateByID_ids)
    obtain tr wt where tx: "writeBatchWithTransaction docs src gtid file pos wi = (tr, wt)"
      by (cases "writeBatchWithTransaction docs src gtid file pos wi")
    note st = writeBatchWithTransaction_staging [OF tx]
    have "map st_id (staging w1) = map st_id (staging wi)"
    proof (cases tr)
      case n: None
      with assms ins None tx st mark [of wt r w1] show ?thesis
        by (simp add: commit_attempt_def)
    next
      case (Some err)
      show ?thesis
      proof (cases "contains (error_string err) ''Transaction numbers are only allowed on a replica set''
                     \<or> contains (error_string err)
                          ''Cannot insert into a time-series collection in a multi-document transaction''")
        case False
        with assms ins None tx Some st show ?thesis
          by (simp add: commit_attempt_def)
      next
        case True
        define w3 where "w3 = (if \<not> noTxWarningLogged wt
              then (log_Println ''WARNING: MongoDB transactions not supported (standalone or time-series collection), using non-transactional writes. Data safety reduced.'' wt)
                     \<lparr>noTxWarningLogged := True\<rparr>
              else wt)"
        have s3: "staging w3 = staging wt" by (simp add: w3_def log_Println_def)
        obtain fr wf where fb: "writeBatchWithoutTransaction docs src gtid file pos w3 = (fr, wf)"
          by (cases "writeBatchWithoutTransaction docs src gtid file pos w3")
        note sf = writeBatchWithoutTransaction_staging [OF fb]
        show ?thesis
        proof (cases fr)
          case n: None
          with assms ins None tx Some True fb mark [of wf r w1] sf s3 st show ?thesis
            unfolding commit_attempt_def w3_def [symmetric] by (simp add: Let_def w3_def [symmetric])
        next
          case (Some e2)
          with assms ins None tx \<open>tr = Some err\<close> True fb sf s3 st show ?thesis
            unfolding commit_attempt_def by (simp add: Let_def w3_def [symmetric])
        qed
      qed
    qed
    with ids ins None show ?thesis by simp
  qed
qed

lemma staged_attempt_fails:
  assumes "st_id doc \<in> set (map st_id (staging w))"
  shows "\<exists>e. fst (commit_attempt batchID doc docs src gtid fl pos w)
              = Some (Errorf ''staging insert'' e)"
proof -
  obtain f wf where nf: "next_fault w = (f, wf)" by (cases "next_fault w")
  with assms next_fault_frame [OF nf] show ?thesis
    by (cases f) (simp_all add: commit_attempt_def staging_InsertOne_def)
qed

lemma retry_loop_never_succeeds:
  "(\<And>w. P w \<Longrightarrow> fst (fn w) \<noteq> None \<and> P (snd (fn w))) \<Longrightarrow>
   (\<And>d w. P w \<Longrightarrow> P (snd (sleep d w))) \<Longrightarrow>
   P w \<Longrightarrow> l \<noteq> None \<Longrightarrow> retry_loop fn sleep N a d l w = (r, tr, w') \<Longrightarrow> r \<noteq> None"
proof (induction fn sleep N a d l w arbitrary: r tr w' rule: retry_loop.induct)
  case (1 fn sleep maxRetries attempt delay lastErr w)
  note fn = "1.prems"(1) and sl = "1.prems"(2)
  from "1.prems"(5) show ?case
  proof (cases rule: retry_loop_cases)
    case stop
    with "1.prems"(4) show ?thesis by simp
  next
    case ok
    with fn [OF "1.prems"(3)] show ?thesis by simp
  next
    case (again err w1 w2 tr2)
    from fn [OF "1.prems"(3)] again(2) have "P w1" by simp
    with sl [of w1 delay] again(5) have "P w2" by simp
    from "1.IH" [OF _ again(2) [symmetric] refl _ _ again(5) [symmetric] refl refl refl
        fn sl \<open>P w2\<close> _ again(6) [unfolded Let_def]] again(1,3,4)
    show ?thesis by (auto simp: isCancellation_def)
  qed simp_all
qed

lemma staged_commit_never_succeeds_on_retry:
  assumes staged: "fst (staging_InsertOne doc w) = None"
    and failed: "fst (commit_attempt (st_id doc) doc docs src gtid file pos w) \<noteq> None"
  shows "fst (retryWithBackoff (commit_attempt (st_id doc) doc docs src gtid file pos)
                (sleep_ctx ctx) N D w) \<noteq> None"
proof -
  let ?fn = "commit_attempt (st_id doc) doc docs src gtid file pos"
  let ?P = "\<lambda>w. st_id doc \<in> set (map st_id (staging w))"
  let ?N = "if N \<le> 0 then 5 else N"
  let ?D = "if D \<le> 0 then 100 * Millisecond else D"
  have fn: "fst (?fn v) \<noteq> None \<and> ?P (snd (?fn v))" if "?P v" for v
  proof -
    obtain r v1 where run: "?fn v = (r, v1)" by (cases "?fn v")
    from commit_attempt_ids [OF run] that have p1: "?P v1" by auto
    from staged_attempt_fails [OF that, where batchID = "st_id doc" and docs = docs and src = src
        and gtid = gtid and fl = "file" and pos = pos] run
    have "r \<noteq> None" by auto
    with p1 run show ?thesis by simp
  qed
  have sl: "?P (snd (sleep_ctx ctx d v))" if "?P v" for d v
    using that sleep_ctx_staging [of ctx d v] by (cases "sleep_ctx ctx d v") simp
  obtain r tr w' where run: "retry_loop ?fn (sleep_ctx ctx) ?N 0 ?D None w = (r, tr, w')"
    by (metis prod_cases3)
  from run have "r \<noteq> None"
  proof (cases rule: retry_loop_cases)
    case stop
    then show ?thesis by (simp split: if_splits)
  next
    case ok
    with failed show ?thesis by simp
  next
    case (again err w1 w2 tr2)
    from commit_attempt_ids [OF again(2)] staged have "?P w1" by simp
    with sl [of w1 ?D] again(5) have "?P w2" by simp
    from retry_loop_never_succeeds [of ?P ?fn "sleep_ctx ctx", OF fn sl \<open>?P w2\<close> _ again(6)]
    show ?thesis by simp
  qed simp_all
  with run show ?thesis by (simp add: retryWithBackoff_def Let_def)
qed

section \<open>Recovery and the start of the reader\<close>

lemma retry_loop_rel:
  "(\<And>v r v1. fn v = (r, v1) \<Longrightarrow> R v v1) \<Longrightarrow>
   (\<And>d v r v1. sleep d v = (r, v1) \<Longrightarrow> R v v1) \<Longrightarrow>
   (\<And>v. R v v) \<Longrightarrow>
   (\<And>a b c. R a b \<Longrightarrow> R b c \<Longrightarrow> R a c) \<Longrightarrow>
   retry_loop fn sleep N a d l w = (r, tr, w') \<Longrightarrow> R w w'"
proof (induction fn sleep N a d l w arbitrary: r tr w' rule: retry_loop.induct)
  case (1 fn sleep maxRetries attempt delay lastErr w)
  note fn = "1.prems"(1) and sl = "1.prems"(2) and refl = "1.prems"(3) and trans = "1.prems"(4)
  from "1.prems"(5) show ?case
  proof (cases rule: retry_loop_cases)
    case stop
    with refl show ?thesis by simp
  next
    case ok
    from fn [OF ok(2)] show ?thesis .
  next
    case (final err)
    from fn [OF final(2)] show ?thesis .
  next
    case (interrupted err w1 ctxErr)
    from trans [OF fn [OF interrupted(2)] sl [OF interrupted(5)]] show ?thesis .
  next
    case (again err w1 w2 tr2)
    have "R w2 w'"
      using "1.IH" [OF _ again(2) [symmetric] HOL.refl _ _ again(5) [symmetric] HOL.refl HOL.refl
          HOL.refl fn sl refl trans again(6) [unfolded Let_def]] again(1,3,4)
      by (auto simp: isCancellation_def)
    from trans [OF trans [OF fn [OF again(2)] sl [OF again(5)]] this] show ?thesis .
  qed
qed
lemma quiet_refl: "quiet w w"
  by (simp add: quiet_def)

lemma quiet_trans: "quiet a b \<Longrightarrow> quiet b c \<Longrightarrow> quiet a c"
proof -
  assume ab: "quiet a b" and bc: "quiet b c"
  from ab have b: "b = a\<lparr>clock := clock b, faults := faults b\<rparr>" by (simp add: quiet_def)
  from bc have c: "c = b\<lparr>clock := clock c, faults := faults c\<rparr>" by (simp add: quiet_def)
  have "c = a\<lparr>clock := clock c, faults := faults c\<rparr>"
    by (subst c, subst b) simp
  moreover from ab bc have "clock a \<le> clock c" by (simp add: quiet_def)
  ultimately show ?thesis by (simp add: quiet_def)
qed

lemma quiet_fields:
  "quiet w w1 \<Longrightarrow>
   events w1 = events w \<and> offsets w1 = offsets w \<and> staging w1 = staging w \<and>
   logs w1 = logs w \<and> master_gtid w1 = master_gtid w \<and> reader_result w1 = reader_result w \<and>
   reader_started w1 = reader_started w \<and> clock w \<le> clock w1"
proof -
  assume q: "quiet w w1"
  then have e: "w1 = w\<lparr>clock := clock w1, faults := faults w1\<rparr>" by (simp add: quiet_def)
  have "events w1 = events w" "offsets w1 = offsets w" "staging w1 = staging w"
    "logs w1 = logs w" "master_gtid w1 = master_gtid w" "reader_result w1 = reader_result w"
    "reader_started w1 = reader_started w"
    by (subst e, simp)+
  with q show ?thesis by (simp add: quiet_def)
qed

lemma next_fault_quiet: "next_fault w = (f, w1) \<Longrightarrow> quiet w w1"
  by (auto simp: next_fault_def quiet_def split: list.splits)

lemma sleep_ctx_quiet: "sleep_ctx ctx d w = (r, w1) \<Longrightarrow> quiet w w1"
  by (auto simp: sleep_ctx_def quiet_def split: option.splits prod.splits if_splits)

lemma offsets_FindOne_quiet: "offsets_FindOne flt w = (r, w1) \<Longrightarrow> quiet w w1"
  by (auto simp: offsets_FindOne_def split: prod.splits option.splits list.splits
      dest: next_fault_quiet)

lemma loadGTID_attempt_quiet:
  "loadGTID_attempt src (g, w) = (r, g1, w1) \<Longrightarrow> quiet w w1"
  by (auto simp: loadGTID_attempt_def Let_def split: prod.splits sum.splits if_splits
      dest!: offsets_FindOne_quiet intro: quiet_trans)

lemma loadGTID_quiet:
  assumes "loadGTID ctx src w = (res, w1)"
  shows "quiet w w1"
proof -
  let ?sleep = "\<lambda>d gw. case gw of (g, w1) \<Rightarrow> (case sleep_ctx ctx d w1 of (r, w2) \<Rightarrow> (r, g, w2))"
  let ?R = "\<lambda>a b. quiet (snd a) (snd b)"
  obtain err tr g w2 where run:
    "retry_loop (loadGTID_attempt src) ?sleep 5 0 (100 * Millisecond) None ([], w) = (err, tr, g, w2)"
    by (metis prod_cases4)
  have fnq: "?R v v1" if "loadGTID_attempt src v = (r, v1)" for v r v1
    using that loadGTID_attempt_quiet [of src "fst v" "snd v" r "fst v1" "snd v1"] by simp
  have slq: "?R v v1" if "?sleep d v = (r, v1)" for d v r v1
    using that sleep_ctx_quiet [of ctx d "snd v"]
    by (cases v) (auto split: prod.splits)
  have rq: "?R v v" for v by (simp add: quiet_refl)
  have tq: "?R a c" if "?R a b" "?R b c" for a b c
    using that quiet_trans by blast
  have "?R ([] :: string, w) (g, w2)"
    by (rule retry_loop_rel [where R = ?R and fn = "loadGTID_attempt src" and sleep = ?sleep,
          OF fnq slq rq tq run])
  moreover from assms run have "w1 = w2"
    by (auto simp: loadGTID_def retryWithBackoff_def Millisecond_def split: if_splits)
  ultimately show ?thesis by simp
qed
lemma resume_outcome:
  assumes "resume ParseGTIDSet src w = (r, w')"
  shows "staging w' = staging w \<and> events w' = events w \<and> offsets w' = offsets w \<and>
         set (logs w) \<subseteq> set (logs w') \<and>
         ((\<exists>g t. reader_started w' = reader_started w @ [(g, t)] \<and> clock w \<le> t) \<or>
          (reader_started w' = reader_started w \<and>
           (\<exists>e. r = Some (Errorf ''parse GTID'' e) \<or> r = Some (Errorf ''GetMasterGTIDSet'' e))))"
proof -
  obtain res w1 where "loadGTID None src w = (res, w1)"
    by (cases "loadGTID None src w")
  moreover obtain gtidStr ok ignored where "res = (gtidStr, ok, ignored)"
    by (cases res)
  ultimately have load: "loadGTID None src w = ((gtidStr, ok, ignored), w1)"
    by simp
  note q = quiet_fields [OF loadGTID_quiet [OF load]]
  show ?thesis
  proof (cases "ok \<and> gtidStr \<noteq> []")
    case True
    show ?thesis
    proof (cases "ParseGTIDSet gtidStr")
      case (Inl err)
      with assms load True q show ?thesis by (auto simp: resume_def)
    next
      case (Inr gtidSet)
      with assms load True q show ?thesis
        by (auto simp: resume_def StartFromGTID_def log_Println_def)
    qed
  next
    case False
    show ?thesis
    proof (cases "master_gtid w")
      case (Inl err)
      with assms load False q show ?thesis
        by (auto simp: resume_def GetMasterGTIDSet_def)
    next
      case (Inr gset)
      with assms load False q show ?thesis
        by (auto simp: resume_def GetMasterGTIDSet_def StartFromGTID_def log_Println_def)
    qed
  qed
qed

lemma failed_recovery_quiet:
  "RecoverPendingBatches w = (Some err, w1) \<Longrightarrow> quiet w w1"
  by (auto simp: RecoverPendingBatches_def Let_def split: prod.splits option.splits if_splits
      dest!: next_fault_quiet intro: quiet_trans)

lemma call_succeeds_tl: "call_succeeds (tl fs) k = call_succeeds fs (Suc k)"
  by (cases fs) (simp_all add: call_succeeds_def)

lemma call_succeeds_drop: "call_succeeds (drop n fs) k = call_succeeds fs (n + k)"
  by (simp add: call_succeeds_def add.commute)

lemma next_fault_call:
  "faults (snd (next_fault w)) = tl (faults w) \<and>
   (fst (next_fault w) = None \<longleftrightarrow> call_succeeds (faults w) 0) \<and>
   quiet w (snd (next_fault w)) \<and> clock (snd (next_fault w)) = clock w"
  by (cases "faults w") (simp_all add: next_fault_def call_succeeds_def quiet_def)

text \<open>
  What \<^verbatim>\<open>loadGTID\<close> answers. The flag says whether the position is non-empty, and an
  error comes with an empty position and the flag down. When the store answers the
  first query and holds an offset record whose \<^verbatim>\<open>_id\<close> is the source, the position
  is that record's.
\<close>

lemma loadGTID_flag:
  assumes "loadGTID ctx src w = ((g, ok, lerr), w1)"
  shows "(ok \<longleftrightarrow> g \<noteq> []) \<and> (lerr \<noteq> None \<longrightarrow> \<not> ok)"
  using assms by (auto simp: loadGTID_def split: prod.splits if_splits)

lemma loadGTID_found:
  assumes nf: "next_fault w = (None, w1)"
    and found: "filter (\<lambda>d. off_id d = src) (offsets w) = d # ds"
  shows "loadGTID ctx src w = ((off_gtid d, off_gtid d \<noteq> [], None), w1)"
proof -
  from quiet_fields [OF next_fault_quiet [OF nf]] have "offsets w1 = offsets w" by simp
  with nf found have "offsets_FindOne (\<lambda>d. off_id d = src) w = (Inr d, w1)"
    by (simp add: offsets_FindOne_def)
  then have att: "loadGTID_attempt src ([], w) = (None, off_gtid d, w1)"
    by (simp add: loadGTID_attempt_def)
  show ?thesis
    by (simp add: loadGTID_def retryWithBackoff_def Millisecond_def retry_loop.simps att)
qed

text \<open>
  Claim C3, as the code has it. When Recovery fails, the goroutine of \<^verbatim>\<open>main\<close> logs
  a warning and goes on as after a successful Recovery (lines 709 to 712): it asks the
  sink for the saved position, discarding the error of that call (line 715). When a
  position was loaded, it is parsed and the reader is started from it; startup ends
  with the error \<^verbatim>\<open>parse GTID\<close>, the reader not started, when it does not parse. When
  none was loaded, because none is saved or because loading failed, the reader is
  started from the master's current position; startup ends with the error
  \<^verbatim>\<open>GetMasterGTIDSet\<close>, the reader not started, when the master does not give it. The
  position loaded is the one of the offset record of the source when the store
  answers the query for it.
\<close>

theorem startup_continues_after_failed_recovery:
  assumes "RecoverPendingBatches w = (Some err, w1)"
    and "loadGTID None src
           (log_Println (''Warning: Could not recover pending batches: '' @ error_string err) w1)
         = ((gtidStr, ok, lerr), w2)"
  shows "(''Warning: Could not recover pending batches: '' @ error_string err)
           \<in> set (logs (snd (startup ParseGTIDSet src w))) \<and>
         (ok \<longleftrightarrow> gtidStr \<noteq> []) \<and> (lerr \<noteq> None \<longrightarrow> \<not> ok) \<and>
         (\<forall>d ds. call_succeeds (faults w1) 0 \<and>
                  filter (\<lambda>d. off_id d = src) (offsets w) = d # ds \<longrightarrow>
                  gtidStr = off_gtid d \<and> lerr = None) \<and>
         (if ok then
            (case ParseGTIDSet gtidStr of
               Inl perr \<Rightarrow>
                 fst (startup ParseGTIDSet src w) = Some (Errorf ''parse GTID'' perr) \<and>
                 reader_started (snd (startup ParseGTIDSet src w)) = reader_started w
             | Inr gtidSet \<Rightarrow>
                 fst (startup ParseGTIDSet src w) = reader_result w \<and>
                 reader_started (snd (startup ParseGTIDSet src w))
                   = reader_started w @ [(gtidSet, clock w2)])
          else
            (case master_gtid w of
               Inl merr \<Rightarrow>
                 fst (startup ParseGTIDSet src w) = Some (Errorf ''GetMasterGTIDSet'' merr) \<and>
                 reader_started (snd (startup ParseGTIDSet src w)) = reader_started w
             | Inr gset \<Rightarrow>
                 fst (startup ParseGTIDSet src w) = reader_result w \<and>
                 reader_started (snd (startup ParseGTIDSet src w))
                   = reader_started w @ [(gset, clock w2)]))"
proof -
  let ?warning = "''Warning: Could not recover pending batches: '' @ error_string err"
  define wl where "wl = log_Println ?warning w1"
  have load: "loadGTID None src wl = ((gtidStr, ok, lerr), w2)"
    using assms(2) by (simp add: wl_def)
  have st: "startup ParseGTIDSet src w = resume ParseGTIDSet src wl"
    using assms(1) by (simp add: startup_def wl_def)
  note q1 = quiet_fields [OF failed_recovery_quiet [OF assms(1)]]
  note q2 = quiet_fields [OF loadGTID_quiet [OF load]]
  have wl: "reader_started wl = reader_started w" "master_gtid wl = master_gtid w"
    "reader_result wl = reader_result w" "offsets wl = offsets w" "faults wl = faults w1"
    "?warning \<in> set (logs wl)"
    using q1 by (simp_all add: wl_def log_Println_def)
  with q2 have w2: "reader_started w2 = reader_started w" "master_gtid w2 = master_gtid w"
    "reader_result w2 = reader_result w" "?warning \<in> set (logs w2)"
    by simp_all
  note flag = loadGTID_flag [OF load]
  have saved: "gtidStr = off_gtid d \<and> lerr = None"
    if "call_succeeds (faults w1) 0 \<and> filter (\<lambda>d. off_id d = src) (offsets w) = d # ds"
    for d ds
  proof -
    from that wl(5) next_fault_call [of wl]
    have "next_fault wl = (None, snd (next_fault wl))" by (simp add: prod_eq_iff)
    from loadGTID_found [OF this, of src d ds None] that wl(4) load
    show ?thesis by simp
  qed
  have outcome: "(if ok then
            (case ParseGTIDSet gtidStr of
               Inl perr \<Rightarrow>
                 fst (resume ParseGTIDSet src wl) = Some (Errorf ''parse GTID'' perr) \<and>
                 reader_started (snd (resume ParseGTIDSet src wl)) = reader_started w
             | Inr gtidSet \<Rightarrow>
                 fst (resume ParseGTIDSet src wl) = reader_result w \<and>
                 reader_started (snd (resume ParseGTIDSet src wl))
                   = reader_started w @ [(gtidSet, clock w2)])
          else
            (case master_gtid w of
               Inl merr \<Rightarrow>
                 fst (resume ParseGTIDSet src wl) = Some (Errorf ''GetMasterGTIDSet'' merr) \<and>
                 reader_started (snd (resume ParseGTIDSet src wl)) = reader_started w
             | Inr gset \<Rightarrow>
                 fst (resume ParseGTIDSet src wl) = reader_result w \<and>
                 reader_started (snd (resume ParseGTIDSet src wl))
                   = reader_started w @ [(gset, clock w2)]))"
    using flag w2(1,2,3)
    by (simp add: resume_def load GetMasterGTIDSet_def StartFromGTID_def log_Println_def
        split: sum.splits)
  have logged: "?warning \<in> set (logs (snd (resume ParseGTIDSet src wl)))"
    using flag w2(2,4)
    by (simp add: resume_def load GetMasterGTIDSet_def StartFromGTID_def log_Println_def
        split: sum.splits)
  from logged flag saved outcome show ?thesis
    unfolding st by (intro conjI allI impI) blast+
qed

lemma refused_recovery:
  "RecoverPendingBatches refusing_store
     = (Some (Errorf ''find pending batches'' (OtherError ''connection refused'')),
        refusing_store\<lparr>faults := []\<rparr>)"
  by (simp add: RecoverPendingBatches_def next_fault_def refusing_store_def healthy_store_def)

lemma refused_startup:
  "startup Inr ''mysql://127.0.0.1:3306'' refusing_store
     = (None,
        refusing_store\<lparr>faults := [],
          logs := [''Warning: Could not recover pending batches: find pending batches: connection refused'',
                   ''Starting from master's GTID set: uuid:1-5''],
          reader_started := [(''uuid:1-5'', 1700000000000000000)]\<rparr>)"
  unfolding startup_def refused_recovery
  by (simp add: resume_def loadGTID_def retryWithBackoff_def
      retry_loop.simps loadGTID_attempt_def offsets_FindOne_def next_fault_def log_Println_def
      GetMasterGTIDSet_def StartFromGTID_def refusing_store_def healthy_store_def Millisecond_def)

lemma refused_saved_recovery:
  "RecoverPendingBatches refusing_saved_store
     = (Some (Errorf ''find pending batches'' (OtherError ''connection refused'')),
        refusing_saved_store\<lparr>faults := []\<rparr>)"
  by (simp add: RecoverPendingBatches_def next_fault_def refusing_saved_store_def
      refusing_store_def healthy_store_def)

lemma refused_saved_load:
  "loadGTID None ''mysql://127.0.0.1:3306''
     (log_Println (''Warning: Could not recover pending batches: ''
        @ error_string (Errorf ''find pending batches'' (OtherError ''connection refused'')))
        (refusing_saved_store\<lparr>faults := []\<rparr>))
     = ((''uuid:1-3'', True, None),
        log_Println (''Warning: Could not recover pending batches: ''
        @ error_string (Errorf ''find pending batches'' (OtherError ''connection refused'')))
        (refusing_saved_store\<lparr>faults := []\<rparr>))"
  by (simp add: loadGTID_def retryWithBackoff_def retry_loop.simps loadGTID_attempt_def
      offsets_FindOne_def next_fault_def log_Println_def refusing_saved_store_def
      refusing_store_def healthy_store_def saved_offset_def Millisecond_def)

lemma refused_saved_facts:
  "reader_started refusing_saved_store = []"
  "reader_result refusing_saved_store = None"
  "master_gtid refusing_saved_store = Inr ''uuid:1-5''"
  "offsets refusing_saved_store = [saved_offset]"
  "off_gtid saved_offset = ''uuid:1-3''"
  "clock (log_Println l (refusing_saved_store\<lparr>faults := []\<rparr>)) = 1700000000000000000"
  by (simp_all add: log_Println_def refusing_saved_store_def refusing_store_def
      healthy_store_def saved_offset_def)

lemma unreachable_saved_recovery:
  "RecoverPendingBatches unreachable_saved_store
     = (Some (Errorf ''find pending batches'' (OtherError ''connection refused'')),
        unreachable_saved_store\<lparr>faults := [Some (OtherError ''connection refused'')]\<rparr>)"
  by (simp add: RecoverPendingBatches_def next_fault_def unreachable_saved_store_def
      refusing_saved_store_def refusing_store_def healthy_store_def)

lemma unreachable_saved_load:
  "loadGTID None ''mysql://127.0.0.1:3306''
     (log_Println (''Warning: Could not recover pending batches: ''
        @ error_string (Errorf ''find pending batches'' (OtherError ''connection refused'')))
        (unreachable_saved_store\<lparr>faults := [Some (OtherError ''connection refused'')]\<rparr>))
     = (([], False, Some (OtherError ''connection refused'')),
        log_Println (''Warning: Could not recover pending batches: ''
        @ error_string (Errorf ''find pending batches'' (OtherError ''connection refused'')))
        (unreachable_saved_store\<lparr>faults := []\<rparr>))"
  by (simp add: loadGTID_def retryWithBackoff_def retry_loop.simps loadGTID_attempt_def
      offsets_FindOne_def next_fault_def log_Println_def isCancellation_def isTransient_def
      unreachable_saved_store_def refusing_saved_store_def refusing_store_def healthy_store_def
      saved_offset_def Millisecond_def)

lemma unreachable_saved_facts:
  "reader_started unreachable_saved_store = []"
  "reader_result unreachable_saved_store = None"
  "master_gtid unreachable_saved_store = Inr ''uuid:1-5''"
  "offsets unreachable_saved_store = [saved_offset]"
  "clock (log_Println l (unreachable_saved_store\<lparr>faults := []\<rparr>)) = 1700000000000000000"
  by (simp_all add: log_Println_def unreachable_saved_store_def refusing_saved_store_def
      refusing_store_def healthy_store_def)

text \<open>
  The theorem at two stores that refuse Recovery's query and hold the offset record
  of an earlier run, with the position \<open>uuid:1-3\<close>, while the master is at
  \<open>uuid:1-5\<close>. At the first the warning is logged and the reader is started from the
  saved position. At the second, which also refuses the query for the offset record,
  the error of \<^verbatim>\<open>loadGTID\<close> is dropped and the reader is started from the master's
  position.
\<close>

theorem startup_continues_after_failed_recovery_witness:
  "RecoverPendingBatches refusing_saved_store
     = (Some (Errorf ''find pending batches'' (OtherError ''connection refused'')),
        refusing_saved_store\<lparr>faults := []\<rparr>) \<and>
   map off_gtid (offsets refusing_saved_store) = [''uuid:1-3''] \<and>
   master_gtid refusing_saved_store = Inr ''uuid:1-5'' \<and>
   (''Warning: Could not recover pending batches: ''
      @ error_string (Errorf ''find pending batches'' (OtherError ''connection refused'')))
     \<in> set (logs (snd (startup Inr ''mysql://127.0.0.1:3306'' refusing_saved_store))) \<and>
   fst (startup Inr ''mysql://127.0.0.1:3306'' refusing_saved_store) = None \<and>
   reader_started (snd (startup Inr ''mysql://127.0.0.1:3306'' refusing_saved_store))
     = [(''uuid:1-3'', 1700000000000000000)] \<and>
   RecoverPendingBatches unreachable_saved_store
     = (Some (Errorf ''find pending batches'' (OtherError ''connection refused'')),
        unreachable_saved_store\<lparr>faults := [Some (OtherError ''connection refused'')]\<rparr>) \<and>
   map off_gtid (offsets unreachable_saved_store) = [''uuid:1-3''] \<and>
   master_gtid unreachable_saved_store = Inr ''uuid:1-5'' \<and>
   fst (startup Inr ''mysql://127.0.0.1:3306'' unreachable_saved_store) = None \<and>
   reader_started (snd (startup Inr ''mysql://127.0.0.1:3306'' unreachable_saved_store))
     = [(''uuid:1-5'', 1700000000000000000)]"
proof -
  note t = startup_continues_after_failed_recovery [OF refused_saved_recovery refused_saved_load,
      of Inr]
  note u = startup_continues_after_failed_recovery [OF unreachable_saved_recovery
      unreachable_saved_load, of Inr]
  from t [THEN conjunct1]
  have logged: "(''Warning: Could not recover pending batches: ''
      @ error_string (Errorf ''find pending batches'' (OtherError ''connection refused'')))
     \<in> set (logs (snd (startup Inr ''mysql://127.0.0.1:3306'' refusing_saved_store)))" .
  from t [THEN conjunct2, THEN conjunct2, THEN conjunct2, THEN conjunct2]
  have started: "fst (startup Inr ''mysql://127.0.0.1:3306'' refusing_saved_store) = None"
    "reader_started (snd (startup Inr ''mysql://127.0.0.1:3306'' refusing_saved_store))
     = [(''uuid:1-3'', 1700000000000000000)]"
    by (simp_all add: refused_saved_facts)
  have saved: "map off_gtid (offsets refusing_saved_store) = [''uuid:1-3'']"
    by (simp add: refused_saved_facts)
  from u [THEN conjunct2, THEN conjunct2, THEN conjunct2, THEN conjunct2]
  have ustarted: "fst (startup Inr ''mysql://127.0.0.1:3306'' unreachable_saved_store) = None"
    "reader_started (snd (startup Inr ''mysql://127.0.0.1:3306'' unreachable_saved_store))
     = [(''uuid:1-5'', 1700000000000000000)]"
    by (simp_all add: unreachable_saved_facts)
  have usaved: "map off_gtid (offsets unreachable_saved_store) = [''uuid:1-3'']"
    by (simp add: unreachable_saved_facts refused_saved_facts(5))
  from refused_saved_recovery saved refused_saved_facts(3) logged started
    unreachable_saved_recovery usaved unreachable_saved_facts(3) ustarted
  show ?thesis by (intro conjI)
qed

text \<open>
  Claim C3 as stated fails: at the store that refuses Recovery's query, Recovery fails
  and the reader is started all the same.
\<close>

theorem startup_after_failed_recovery_counterexample:
  "fst (RecoverPendingBatches refusing_store) \<noteq> None \<and>
   fst (startup Inr ''mysql://127.0.0.1:3306'' refusing_store) = None \<and>
   map fst (reader_started (snd (startup Inr ''mysql://127.0.0.1:3306'' refusing_store)))
     = [''uuid:1-5'']"
  by (simp add: refused_recovery refused_startup)

lemma archive_all_call:
  obtains w3 where "archive_all (doc # docs) w = archive_all docs w3"
    "faults w3 = tl (faults w)" "clock w3 = clock w + 1"
    "staging w3 = (if call_succeeds (faults w) 0
                   then map (\<lambda>d. if st_id d = st_id doc
                                  then d\<lparr>status := ''archived'', archivedAt := Some (clock w)\<rparr>
                                  else d) (staging w)
                   else staging w)"
proof -
  let ?w2 = "w\<lparr>logs := logs w @ [''Recovering batch '' @ st_id doc], clock := clock w + 1\<rparr>"
  let ?upd = "\<lambda>d. d\<lparr>status := ''archived'', archivedAt := Some (clock w)\<rparr>"
  obtain f wn where nf: "next_fault ?w2 = (f, wn)" by (cases "next_fault ?w2")
  from next_fault_call [of ?w2] nf
  have fl: "faults wn = tl (faults w)" and ok: "f = None \<longleftrightarrow> call_succeeds (faults w) 0"
    and q: "quiet ?w2 wn" and ck: "clock wn = clock w + 1"
    by simp_all
  from quiet_fields [OF q] have st: "staging wn = staging w" by simp
  define w3 where "w3 = snd (staging_UpdateByID (st_id doc) ?upd ?w2)"
  have step: "archive_all (doc # docs) w = archive_all docs w3"
    by (simp add: w3_def Now_def log_Println_def Let_def split_beta cong: if_cong)
  have w3: "w3 = (case f of Some e \<Rightarrow> wn
      | None \<Rightarrow> wn\<lparr>staging := map (\<lambda>d. if st_id d = st_id doc then ?upd d else d) (staging wn)\<rparr>)"
    using nf by (simp add: w3_def staging_UpdateByID_def split: option.splits)
  show thesis
  proof (rule that [OF step])
    show "faults w3 = tl (faults w)" using fl by (simp add: w3 split: option.splits)
    show "clock w3 = clock w + 1" using ck by (simp add: w3 split: option.splits)
    show "staging w3 = (if call_succeeds (faults w) 0
                   then map (\<lambda>d. if st_id d = st_id doc then ?upd d else d) (staging w)
                   else staging w)"
      using ok st by (cases f) (simp_all add: w3)
  qed
qed

lemma archive_all_per_call:
  assumes "distinct (map st_id docs)"
  shows "clock (archive_all docs w) = clock w + int (length docs) \<and>
         length (staging (archive_all docs w)) = length (staging w) \<and>
         (\<forall>i < length (staging w).
            (\<forall>k < length docs. st_id (staging w ! i) = st_id (docs ! k) \<longrightarrow>
               staging (archive_all docs w) ! i
                 = (if call_succeeds (faults w) k
                    then (staging w ! i)\<lparr>status := ''archived'', archivedAt := Some (clock w + int k)\<rparr>
                    else staging w ! i)) \<and>
            (st_id (staging w ! i) \<notin> set (map st_id docs) \<longrightarrow>
               staging (archive_all docs w) ! i = staging w ! i))"
  using assms
proof (induction docs arbitrary: w)
  case Nil
  then show ?case by simp
next
  case (Cons doc docs)
  obtain w3 where step: "archive_all (doc # docs) w = archive_all docs w3"
    and fl3: "faults w3 = tl (faults w)" and ck3: "clock w3 = clock w + 1"
    and st3: "staging w3 = (if call_succeeds (faults w) 0
                   then map (\<lambda>d. if st_id d = st_id doc
                                  then d\<lparr>status := ''archived'', archivedAt := Some (clock w)\<rparr>
                                  else d) (staging w)
                   else staging w)"
    by (rule archive_all_call)
  from Cons.prems have d3: "distinct (map st_id docs)" and fresh: "st_id doc \<notin> set (map st_id docs)"
    by simp_all
  note IH = Cons.IH [OF d3, of w3]
  have len3: "length (staging w3) = length (staging w)" by (simp add: st3)
  have id3: "st_id (staging w3 ! i) = st_id (staging w ! i)" if "i < length (staging w)" for i
    using that by (simp add: st3)
  have row3: "staging w3 ! i = (if st_id (staging w ! i) = st_id doc \<and> call_succeeds (faults w) 0
      then (staging w ! i)\<lparr>status := ''archived'', archivedAt := Some (clock w)\<rparr>
      else staging w ! i)" if "i < length (staging w)" for i
    using that by (simp add: st3)
  have rows: "(\<forall>k < length (doc # docs). st_id (staging w ! i) = st_id ((doc # docs) ! k) \<longrightarrow>
               staging (archive_all docs w3) ! i
                 = (if call_succeeds (faults w) k
                    then (staging w ! i)\<lparr>status := ''archived'', archivedAt := Some (clock w + int k)\<rparr>
                    else staging w ! i)) \<and>
            (st_id (staging w ! i) \<notin> set (map st_id (doc # docs)) \<longrightarrow>
               staging (archive_all docs w3) ! i = staging w ! i)"
    if i: "i < length (staging w)" for i
  proof -
    from i len3 have i3: "i < length (staging w3)" by simp
    note row = IH [THEN conjunct2, THEN conjunct2, rule_format, OF i3]
    note byk = row [THEN conjunct1, rule_format]
    note other = row [THEN conjunct2, rule_format]
    show ?thesis
    proof (intro conjI allI impI)
      fix k assume k: "k < length (doc # docs)"
        and idk: "st_id (staging w ! i) = st_id ((doc # docs) ! k)"
      show "staging (archive_all docs w3) ! i
          = (if call_succeeds (faults w) k
             then (staging w ! i)\<lparr>status := ''archived'', archivedAt := Some (clock w + int k)\<rparr>
             else staging w ! i)"
      proof (cases k)
        case 0
        with idk have here: "st_id (staging w ! i) = st_id doc" by simp
        with fresh id3 [OF i] have "st_id (staging w3 ! i) \<notin> set (map st_id docs)" by simp
        from other [OF this] row3 [OF i] here 0 show ?thesis by simp
      next
        case (Suc k')
        with k idk have k': "k' < length docs" and idk': "st_id (staging w ! i) = st_id (docs ! k')"
          by simp_all
        from k' idk' fresh have "st_id (staging w ! i) \<noteq> st_id doc"
          by (metis length_map nth_map nth_mem)
        with row3 [OF i] have same: "staging w3 ! i = staging w ! i" by simp
        from byk [OF k'] idk' id3 [OF i]
        have "staging (archive_all docs w3) ! i
            = (if call_succeeds (faults w3) k'
               then (staging w3 ! i)\<lparr>status := ''archived'', archivedAt := Some (clock w3 + int k')\<rparr>
               else staging w3 ! i)"
          by simp
        then show ?thesis
          by (simp add: same fl3 ck3 call_succeeds_tl Suc)
      qed
    next
      assume "st_id (staging w ! i) \<notin> set (map st_id (doc # docs))"
      then have ne: "st_id (staging w ! i) \<noteq> st_id doc"
        and nin: "st_id (staging w ! i) \<notin> set (map st_id docs)" by simp_all
      from ne row3 [OF i] have same: "staging w3 ! i = staging w ! i" by simp
      from nin id3 [OF i] have "st_id (staging w3 ! i) \<notin> set (map st_id docs)" by simp
      from other [OF this] same show "staging (archive_all docs w3) ! i = staging w ! i" by simp
    qed
  qed
  have "clock (archive_all docs w3) = clock w + int (length (doc # docs))"
    "length (staging (archive_all docs w3)) = length (staging w)"
    using IH ck3 len3 by simp_all
  with rows show ?case unfolding step by blast
qed

lemma archive_all_frame:
  "events (archive_all docs w) = events w \<and> offsets (archive_all docs w) = offsets w \<and>
   reader_started (archive_all docs w) = reader_started w \<and> clock w \<le> clock (archive_all docs w)"
proof (induction docs arbitrary: w)
  case Nil
  show ?case by simp
next
  case (Cons doc docs)
  obtain r w3 where up: "staging_UpdateByID (st_id doc)
      (\<lambda>d. d\<lparr>status := ''archived'', archivedAt := Some (clock w)\<rparr>)
      (w\<lparr>logs := logs w @ [''Recovering batch '' @ st_id doc], clock := clock w + 1\<rparr>) = (r, w3)"
    by (cases "staging_UpdateByID (st_id doc)
      (\<lambda>d. d\<lparr>status := ''archived'', archivedAt := Some (clock w)\<rparr>)
      (w\<lparr>logs := logs w @ [''Recovering batch '' @ st_id doc], clock := clock w + 1\<rparr>)")
  then have f3: "events w3 = events w \<and> offsets w3 = offsets w \<and>
      reader_started w3 = reader_started w \<and> clock w \<le> clock w3"
    by (auto simp: staging_UpdateByID_def split: prod.splits option.splits
        dest!: next_fault_quiet quiet_fields)
  from up have "archive_all (doc # docs) w = archive_all docs w3"
    by (simp add: Now_def log_Println_def Let_def cong: if_cong)
  with Cons.IH [of w3] f3 show ?case by simp
qed

lemma RecoverPendingBatches_frame:
  assumes "RecoverPendingBatches w = (r, w1)"
  shows "events w1 = events w \<and> offsets w1 = offsets w \<and> reader_started w1 = reader_started w \<and>
         clock w \<le> clock w1"
proof -
  obtain f1 wa where a: "next_fault w = (f1, wa)" by (cases "next_fault w")
  obtain f2 wb where b: "next_fault wa = (f2, wb)" by (cases "next_fault wa")
  note qa = quiet_fields [OF next_fault_quiet [OF a]]
  note qb = quiet_fields [OF next_fault_quiet [OF b]]
  show ?thesis
  proof (cases f1)
    case (Some e)
    with assms a qa show ?thesis by (simp add: RecoverPendingBatches_def)
  next
    case n1: None
    show ?thesis
    proof (cases f2)
      case (Some e)
      with assms a b n1 qa qb show ?thesis by (simp add: RecoverPendingBatches_def)
    next
      case None
      let ?docs = "filter (\<lambda>d. status d = ''pending'') (staging wb)"
      let ?wl = "log_Println (''Found '' @ nat_dec (length ?docs) @ '' pending batches to recover'') wb"
      have "w1 = (if length ?docs > 0 then archive_all ?docs ?wl else wb)"
        using assms a b n1 None by (auto simp: RecoverPendingBatches_def Let_def split: if_splits)
      with archive_all_frame [of ?docs ?wl] qa qb show ?thesis
        by (simp add: log_Println_def split: if_splits)
    qed
  qed
qed

lemma RecoverPendingBatches_per_call:
  assumes run: "RecoverPendingBatches w = (r, w1)"
    and uniq: "distinct (map st_id (staging w))"
    and c0: "call_succeeds (faults w) 0" and c1: "call_succeeds (faults w) 1"
  shows "r = None \<and> length (staging w1) = length (staging w) \<and>
         (\<forall>i < length (staging w).
            (status (staging w ! i) = ''pending'' \<longrightarrow>
               (\<exists>k < length (filter (\<lambda>d. status d = ''pending'') (staging w)).
                  filter (\<lambda>d. status d = ''pending'') (staging w) ! k = staging w ! i \<and>
                  staging w1 ! i
                    = (if call_succeeds (faults w) (2 + k)
                       then (staging w ! i)\<lparr>status := ''archived'',
                                              archivedAt := Some (clock w + int k)\<rparr>
                       else staging w ! i))) \<and>
            (status (staging w ! i) \<noteq> ''pending'' \<longrightarrow> staging w1 ! i = staging w ! i))"
proof -
  define wa where "wa = snd (next_fault w)"
  from next_fault_call [of w] c0
  have a: "next_fault w = (None, wa)" and fa: "faults wa = tl (faults w)"
    and ca: "clock wa = clock w" and sa: "staging wa = staging w"
    using quiet_fields [of w wa] by (auto simp: wa_def prod_eq_iff)
  define wb where "wb = snd (next_fault wa)"
  from c1 fa have "call_succeeds (faults wa) 0" by (simp add: call_succeeds_tl)
  with next_fault_call [of wa]
  have b: "next_fault wa = (None, wb)" and fb: "faults wb = tl (tl (faults w))"
    and cb: "clock wb = clock w" and sb: "staging wb = staging w"
    using quiet_fields [of wa wb] fa ca sa by (auto simp: wb_def prod_eq_iff)
  define docs where "docs = filter (\<lambda>d. status d = ''pending'') (staging w)"
  define wl where
    "wl = log_Println (''Found '' @ nat_dec (length docs) @ '' pending batches to recover'') wb"
  have res: "r = None" "w1 = (if length docs > 0 then archive_all docs wl else wb)"
    using run a b sb by (auto simp: RecoverPendingBatches_def Let_def docs_def wl_def split: if_splits)
  have wl: "staging wl = staging w" "clock wl = clock w" "faults wl = tl (tl (faults w))"
    using sb cb fb by (simp_all add: wl_def log_Println_def)
  have calls: "call_succeeds (faults wl) k = call_succeeds (faults w) (2 + k)" for k
    by (simp add: wl call_succeeds_tl)
  have ddocs: "distinct (map st_id docs)"
    using uniq by (simp add: docs_def distinct_map_filter)
  from uniq have inj: "inj_on st_id (set (staging w))" by (simp add: distinct_map)
  note ar = archive_all_per_call [OF ddocs, of wl]
  have len: "length (staging w1) = length (staging w)"
    using ar res(2) wl(1) sb by simp
  have rows: "(status (staging w ! i) = ''pending'' \<longrightarrow>
               (\<exists>k < length docs. docs ! k = staging w ! i \<and>
                  staging w1 ! i
                    = (if call_succeeds (faults w) (2 + k)
                       then (staging w ! i)\<lparr>status := ''archived'',
                                              archivedAt := Some (clock w + int k)\<rparr>
                       else staging w ! i))) \<and>
            (status (staging w ! i) \<noteq> ''pending'' \<longrightarrow> staging w1 ! i = staging w ! i)"
    if i: "i < length (staging w)" for i
  proof -
    from i wl(1) have il: "i < length (staging wl)" by simp
    note row = ar [THEN conjunct2, THEN conjunct2, rule_format, OF il]
    show ?thesis
    proof (intro conjI impI)
      assume p: "status (staging w ! i) = ''pending''"
      with i have "staging w ! i \<in> set docs" by (simp add: docs_def)
      then obtain k where k: "k < length docs" "docs ! k = staging w ! i"
        by (auto simp: in_set_conv_nth)
      then have some: "length docs > 0" by auto
      from row [THEN conjunct1, rule_format, OF k(1)] k(2) wl(1)
      have "staging (archive_all docs wl) ! i
          = (if call_succeeds (faults wl) k
             then (staging w ! i)\<lparr>status := ''archived'', archivedAt := Some (clock wl + int k)\<rparr>
             else staging w ! i)"
        by simp
      with some res(2) have "staging w1 ! i
          = (if call_succeeds (faults w) (2 + k)
             then (staging w ! i)\<lparr>status := ''archived'', archivedAt := Some (clock w + int k)\<rparr>
             else staging w ! i)"
        by (simp add: calls wl(2))
      with k show "\<exists>k < length docs. docs ! k = staging w ! i \<and>
                  staging w1 ! i
                    = (if call_succeeds (faults w) (2 + k)
                       then (staging w ! i)\<lparr>status := ''archived'',
                                              archivedAt := Some (clock w + int k)\<rparr>
                       else staging w ! i)"
        by blast
    next
      assume np: "status (staging w ! i) \<noteq> ''pending''"
      have "st_id (staging w ! i) \<notin> set (map st_id docs)"
      proof
        assume "st_id (staging w ! i) \<in> set (map st_id docs)"
        then obtain d where d: "d \<in> set (staging w)" "status d = ''pending''"
          "st_id d = st_id (staging w ! i)"
          by (auto simp: docs_def)
        with inj i have "d = staging w ! i" by (auto dest: inj_onD)
        with d np show False by simp
      qed
      with row wl(1) have "staging (archive_all docs wl) ! i = staging w ! i" by simp
      with res(2) sb show "staging w1 ! i = staging w ! i" by simp
    qed
  qed
  from res(1) len rows show ?thesis unfolding docs_def by blast
qed

lemma RecoverPendingBatches_refused:
  assumes run: "RecoverPendingBatches w = (r, w1)"
    and "\<not> (call_succeeds (faults w) 0 \<and> call_succeeds (faults w) 1)"
  shows "r \<noteq> None \<and> staging w1 = staging w"
proof -
  obtain f1 wa where a: "next_fault w = (f1, wa)" by (cases "next_fault w")
  obtain f2 wb where b: "next_fault wa = (f2, wb)" by (cases "next_fault wa")
  from next_fault_call [of w] a
  have fa: "faults wa = tl (faults w)" and oka: "f1 = None \<longleftrightarrow> call_succeeds (faults w) 0"
    and sa: "staging wa = staging w"
    using quiet_fields [of w wa] by simp_all
  from next_fault_call [of wa] b fa
  have okb: "f2 = None \<longleftrightarrow> call_succeeds (faults w) 1" and sb: "staging wb = staging wa"
    using quiet_fields [of wa wb] by (simp_all add: call_succeeds_tl)
  show ?thesis
  proof (cases f1)
    case (Some e)
    with run a sa show ?thesis by (auto simp: RecoverPendingBatches_def)
  next
    case None
    with oka assms(2) okb obtain e where "f2 = Some e" by (cases f2) auto
    with run a b None sa sb show ?thesis by (auto simp: RecoverPendingBatches_def)
  qed
qed

text \<open>
  Claim C4, as the code has it. Recovery never writes the events or the offsets
  collection and does not start the reader. It issues one update for every pending
  staging document it found, in the order of the cursor, and discards the update's
  result (line 387). So, when the query and the reading of the cursor are answered
  and the staging documents have distinct ids, Recovery returns \<^verbatim>\<open>nil\<close>, and the
  pending document found at place \<open>k\<close> is the same document with status \<open>archived\<close>
  and the clock reading of its update as archive timestamp when the store accepts
  that update, the call \<open>2 + k\<close>, and is left as it was, pending, when the store
  refuses it; the other documents are untouched. When the query or the reading of the
  cursor is refused, Recovery returns an error and the staging collection is as it
  was. The goroutine of \<^verbatim>\<open>main\<close> starts the reader only after Recovery has returned:
  what follows leaves the three collections as Recovery left them, and a reader it
  starts is started at a clock reading that is not before the end of Recovery.
\<close>

theorem recovery_archives_pending:
  assumes "RecoverPendingBatches w = (r, w1)"
    and "startup ParseGTIDSet src w = (r2, w2)"
  shows "events w1 = events w \<and> offsets w1 = offsets w \<and> reader_started w1 = reader_started w \<and>
    (call_succeeds (faults w) 0 \<and> call_succeeds (faults w) 1 \<and>
     distinct (map st_id (staging w)) \<longrightarrow>
       r = None \<and> length (staging w1) = length (staging w) \<and>
       (\<forall>i < length (staging w).
          (status (staging w ! i) = ''pending'' \<longrightarrow>
             (\<exists>k < length (filter (\<lambda>d. status d = ''pending'') (staging w)).
                filter (\<lambda>d. status d = ''pending'') (staging w) ! k = staging w ! i \<and>
                staging w1 ! i
                  = (if call_succeeds (faults w) (2 + k)
                     then (staging w ! i)\<lparr>status := ''archived'',
                                            archivedAt := Some (clock w + int k)\<rparr>
                     else staging w ! i))) \<and>
          (status (staging w ! i) \<noteq> ''pending'' \<longrightarrow> staging w1 ! i = staging w ! i))) \<and>
    (\<not> (call_succeeds (faults w) 0 \<and> call_succeeds (faults w) 1) \<longrightarrow>
       r \<noteq> None \<and> staging w1 = staging w) \<and>
    staging w2 = staging w1 \<and> events w2 = events w \<and> offsets w2 = offsets w \<and>
    (\<forall>g t. (g, t) \<in> set (reader_started w2) \<longrightarrow>
       (g, t) \<in> set (reader_started w) \<or> clock w1 \<le> t)"
proof -
  note fr = RecoverPendingBatches_frame [OF assms(1)]
  define ws where "ws = (case r of
      Some err \<Rightarrow> log_Println (''Warning: Could not recover pending batches: '' @ error_string err) w1
    | None \<Rightarrow> w1)"
  have ws: "staging ws = staging w1" "events ws = events w1" "offsets ws = offsets w1"
    "reader_started ws = reader_started w1" "clock ws = clock w1"
    by (simp_all add: ws_def log_Println_def split: option.splits)
  from assms have run: "resume ParseGTIDSet src ws = (r2, w2)"
    by (simp add: startup_def ws_def split: option.splits)
  note ro = resume_outcome [OF run]
  have after: "staging w2 = staging w1" "events w2 = events w" "offsets w2 = offsets w"
    using ro ws fr by simp_all
  have reader: "(g, t) \<in> set (reader_started w) \<or> clock w1 \<le> t"
    if "(g, t) \<in> set (reader_started w2)" for g t
    using that ro ws fr by auto
  have archived: "r = None \<and> length (staging w1) = length (staging w) \<and>
       (\<forall>i < length (staging w).
          (status (staging w ! i) = ''pending'' \<longrightarrow>
             (\<exists>k < length (filter (\<lambda>d. status d = ''pending'') (staging w)).
                filter (\<lambda>d. status d = ''pending'') (staging w) ! k = staging w ! i \<and>
                staging w1 ! i
                  = (if call_succeeds (faults w) (2 + k)
                     then (staging w ! i)\<lparr>status := ''archived'',
                                            archivedAt := Some (clock w + int k)\<rparr>
                     else staging w ! i))) \<and>
          (status (staging w ! i) \<noteq> ''pending'' \<longrightarrow> staging w1 ! i = staging w ! i))"
    if "call_succeeds (faults w) 0 \<and> call_succeeds (faults w) 1 \<and>
        distinct (map st_id (staging w))"
    using RecoverPendingBatches_per_call [OF assms(1)] that by blast
  have refused: "r \<noteq> None \<and> staging w1 = staging w"
    if "\<not> (call_succeeds (faults w) 0 \<and> call_succeeds (faults w) 1)"
    using RecoverPendingBatches_refused [OF assms(1) that] .
  show ?thesis
    using fr after reader archived refused by (intro conjI impI allI) blast+
qed

lemma crashed_recovery:
  "RecoverPendingBatches crashed_store
     = (None,
        crashed_store\<lparr>
          logs := [''Found '' @ nat_dec 1 @ '' pending batches to recover'',
                   ''Recovering batch '' @ st_id pending_batch],
          clock := 1700000000000000001,
          staging := [committed_batch,
                      pending_batch\<lparr>status := ''archived'', archivedAt := Some 1700000000000000000\<rparr>]\<rparr>)"
  by (simp add: RecoverPendingBatches_def next_fault_def Now_def staging_UpdateByID_def
      log_Println_def crashed_store_def healthy_store_def pending_batch_def committed_batch_def)

lemma crashed_startup:
  "reader_started (snd (startup Inr ''mysql://127.0.0.1:3306'' crashed_store))
     = [(''uuid:1-5'', 1700000000000000001)]"
  unfolding startup_def crashed_recovery
  by (simp add: resume_def loadGTID_def retryWithBackoff_def
      retry_loop.simps loadGTID_attempt_def offsets_FindOne_def next_fault_def log_Println_def
      GetMasterGTIDSet_def StartFromGTID_def crashed_store_def healthy_store_def Millisecond_def)

lemma unreliable_recovery:
  "RecoverPendingBatches unreliable_crashed_store
     = (None,
        unreliable_crashed_store\<lparr>
          faults := [],
          logs := [''Found '' @ nat_dec 1 @ '' pending batches to recover'',
                   ''Recovering batch '' @ st_id pending_batch],
          clock := 1700000000000000001\<rparr>)"
  by (simp add: RecoverPendingBatches_def next_fault_def Now_def staging_UpdateByID_def
      log_Println_def unreliable_crashed_store_def crashed_store_def healthy_store_def
      pending_batch_def committed_batch_def)

lemma unreliable_startup:
  "fst (startup Inr ''mysql://127.0.0.1:3306'' unreliable_crashed_store) = None"
  "reader_started (snd (startup Inr ''mysql://127.0.0.1:3306'' unreliable_crashed_store))
     = [(''uuid:1-5'', 1700000000000000001)]"
  unfolding startup_def unreliable_recovery
  by (simp_all add: resume_def loadGTID_def retryWithBackoff_def
      retry_loop.simps loadGTID_attempt_def offsets_FindOne_def next_fault_def log_Println_def
      GetMasterGTIDSet_def StartFromGTID_def unreliable_crashed_store_def crashed_store_def
      healthy_store_def Millisecond_def)

lemma crashed_stores:
  "distinct (map st_id (staging crashed_store))"
  "staging unreliable_crashed_store = staging crashed_store"
  "length (staging crashed_store) = 2"
  "status (staging crashed_store ! 1) = ''pending''"
  "status (staging crashed_store ! 0) \<noteq> ''pending''"
  "filter (\<lambda>d. status d = ''pending'') (staging crashed_store) = [staging crashed_store ! 1]"
  "clock crashed_store = 1700000000000000000"
  "clock unreliable_crashed_store = 1700000000000000000"
  by (simp_all add: unreliable_crashed_store_def crashed_store_def healthy_store_def
      pending_batch_def committed_batch_def)

lemma crashed_calls:
  "call_succeeds (faults crashed_store) 0" "call_succeeds (faults crashed_store) 1"
  "call_succeeds (faults crashed_store) 2"
  "call_succeeds (faults unreliable_crashed_store) 0"
  "call_succeeds (faults unreliable_crashed_store) 1"
  "\<not> call_succeeds (faults unreliable_crashed_store) 2"
  by (simp_all add: call_succeeds_def unreliable_crashed_store_def crashed_store_def
      healthy_store_def numeral_2_eq_2)

text \<open>
  The theorem at the store left by a crash, and at the same store when the first
  update is refused. At the first, the pending batch (at index 1) is archived with
  the clock reading of its update, the committed one (at index 0) is untouched,
  events and offsets are as before, and the reader is started after Recovery's clock
  readings. At the second, the pending batch is left as it was.
\<close>

theorem recovery_archives_pending_witness:
  "distinct (map st_id (staging crashed_store)) \<and>
   status (staging crashed_store ! 1) = ''pending'' \<and>
   status (staging crashed_store ! 0) \<noteq> ''pending'' \<and>
   call_succeeds (faults crashed_store) 0 \<and> call_succeeds (faults crashed_store) 1 \<and>
   call_succeeds (faults crashed_store) 2 \<and>
   fst (RecoverPendingBatches crashed_store) = None \<and>
   staging (snd (RecoverPendingBatches crashed_store)) ! 1
     = (staging crashed_store ! 1)\<lparr>status := ''archived'', archivedAt := Some 1700000000000000000\<rparr> \<and>
   staging (snd (RecoverPendingBatches crashed_store)) ! 0 = staging crashed_store ! 0 \<and>
   events (snd (RecoverPendingBatches crashed_store)) = events crashed_store \<and>
   offsets (snd (RecoverPendingBatches crashed_store)) = offsets crashed_store \<and>
   reader_started (snd (startup Inr ''mysql://127.0.0.1:3306'' crashed_store))
     = [(''uuid:1-5'', 1700000000000000001)] \<and>
   clock (snd (RecoverPendingBatches crashed_store)) \<le> 1700000000000000001 \<and>
   call_succeeds (faults unreliable_crashed_store) 0 \<and>
   call_succeeds (faults unreliable_crashed_store) 1 \<and>
   \<not> call_succeeds (faults unreliable_crashed_store) 2 \<and>
   fst (RecoverPendingBatches unreliable_crashed_store) = None \<and>
   staging (snd (RecoverPendingBatches unreliable_crashed_store)) ! 1
     = staging unreliable_crashed_store ! 1"
proof -
  obtain r2 w2 where st: "startup Inr ''mysql://127.0.0.1:3306'' crashed_store = (r2, w2)"
    by (cases "startup Inr ''mysql://127.0.0.1:3306'' crashed_store")
  obtain r3 w3 where su: "startup Inr ''mysql://127.0.0.1:3306'' unreliable_crashed_store = (r3, w3)"
    by (cases "startup Inr ''mysql://127.0.0.1:3306'' unreliable_crashed_store")
  note t = recovery_archives_pending [OF crashed_recovery st]
  note u = recovery_archives_pending [OF unreliable_recovery su]
  have idx: "(1::nat) < length (staging crashed_store)" "(0::nat) < length (staging crashed_store)"
    "(1::nat) < length (staging unreliable_crashed_store)"
    by (simp_all add: crashed_stores)
  have pre: "call_succeeds (faults crashed_store) 0 \<and> call_succeeds (faults crashed_store) 1 \<and>
      distinct (map st_id (staging crashed_store))"
    using crashed_calls(1,2) crashed_stores(1) by (intro conjI)
  have upre: "call_succeeds (faults unreliable_crashed_store) 0 \<and>
      call_succeeds (faults unreliable_crashed_store) 1 \<and>
      distinct (map st_id (staging unreliable_crashed_store))"
    using crashed_calls(4,5) crashed_stores(1,2) by simp
  note at = t [THEN conjunct2, THEN conjunct2, THEN conjunct2, THEN conjunct1, rule_format, OF pre]
  note au = u [THEN conjunct2, THEN conjunct2, THEN conjunct2, THEN conjunct1, rule_format, OF upre]
  have ok: "fst (RecoverPendingBatches crashed_store) = None"
    by (simp add: crashed_recovery)
  from at [THEN conjunct2, THEN conjunct2, rule_format, OF idx(2), THEN conjunct2, rule_format,
      OF crashed_stores(5)]
  have kept: "staging (snd (RecoverPendingBatches crashed_store)) ! 0 = staging crashed_store ! 0"
    unfolding crashed_recovery snd_conv .
  from at [THEN conjunct2, THEN conjunct2, rule_format, OF idx(1), THEN conjunct1, rule_format,
      OF crashed_stores(4)]
  obtain k where k: "k < length (filter (\<lambda>d. status d = ''pending'') (staging crashed_store))"
    "staging (snd (RecoverPendingBatches crashed_store)) ! 1
       = (if call_succeeds (faults crashed_store) (2 + k)
          then (staging crashed_store ! 1)\<lparr>status := ''archived'',
                 archivedAt := Some (clock crashed_store + int k)\<rparr>
          else staging crashed_store ! 1)"
    unfolding crashed_recovery snd_conv by blast
  from k(1) have k0: "k = 0" by (simp add: crashed_stores(6))
  have arch: "staging (snd (RecoverPendingBatches crashed_store)) ! 1
     = (staging crashed_store ! 1)\<lparr>status := ''archived'', archivedAt := Some 1700000000000000000\<rparr>"
    unfolding k(2) k0 using crashed_calls(3) by (simp add: crashed_stores(7))
  from t [THEN conjunct1] t [THEN conjunct2, THEN conjunct1]
  have frame: "events (snd (RecoverPendingBatches crashed_store)) = events crashed_store"
    "offsets (snd (RecoverPendingBatches crashed_store)) = offsets crashed_store"
    unfolding crashed_recovery snd_conv by this+
  have w2: "reader_started w2 = [(''uuid:1-5'', 1700000000000000001)]"
    using crashed_startup by (simp add: st)
  have "(''uuid:1-5'', 1700000000000000001) \<in> set (reader_started w2)"
    by (simp add: w2)
  from t [THEN conjunct2, THEN conjunct2, THEN conjunct2, THEN conjunct2, THEN conjunct2,
      THEN conjunct2, THEN conjunct2, THEN conjunct2, rule_format, OF this]
  have after: "clock (snd (RecoverPendingBatches crashed_store)) \<le> 1700000000000000001"
    unfolding crashed_recovery snd_conv by (simp add: crashed_store_def healthy_store_def)
  have uok: "fst (RecoverPendingBatches unreliable_crashed_store) = None"
    by (simp add: unreliable_recovery)
  have upend: "status (staging unreliable_crashed_store ! 1) = ''pending''"
    unfolding crashed_stores(2) by (rule crashed_stores(4))
  from au [THEN conjunct2, THEN conjunct2, rule_format, OF idx(3), THEN conjunct1, rule_format,
      OF upend]
  obtain j where j: "j < length (filter (\<lambda>d. status d = ''pending'') (staging unreliable_crashed_store))"
    "staging (snd (RecoverPendingBatches unreliable_crashed_store)) ! 1
       = (if call_succeeds (faults unreliable_crashed_store) (2 + j)
          then (staging unreliable_crashed_store ! 1)\<lparr>status := ''archived'',
                 archivedAt := Some (clock unreliable_crashed_store + int j)\<rparr>
          else staging unreliable_crashed_store ! 1)"
    unfolding unreliable_recovery snd_conv by blast
  from j(1) have j0: "j = 0" by (simp add: crashed_stores(2,6))
  have left: "staging (snd (RecoverPendingBatches unreliable_crashed_store)) ! 1
     = staging unreliable_crashed_store ! 1"
    unfolding j(2) j0 using crashed_calls(6) by simp
  from crashed_stores(1,4,5) crashed_calls(1,2,3) ok arch kept frame crashed_startup after
    crashed_calls(4,5,6) uok left
  show ?thesis by (intro conjI)
qed

text \<open>
  Claim C4 as stated fails: at the store whose first update is refused, Recovery finds
  the pending batch and returns \<^verbatim>\<open>nil\<close>, the batch is still pending with no archive
  timestamp, and the reader is started.
\<close>

theorem recovery_leaves_pending_counterexample:
  "map status (staging unreliable_crashed_store) = [''committed'', ''pending''] \<and>
   fst (RecoverPendingBatches unreliable_crashed_store) = None \<and>
   map status (staging (snd (RecoverPendingBatches unreliable_crashed_store)))
     = [''committed'', ''pending''] \<and>
   map archivedAt (staging (snd (RecoverPendingBatches unreliable_crashed_store)))
     = [None, None] \<and>
   fst (startup Inr ''mysql://127.0.0.1:3306'' unreliable_crashed_store) = None \<and>
   map fst (reader_started (snd (startup Inr ''mysql://127.0.0.1:3306'' unreliable_crashed_store)))
     = [''uuid:1-5'']"
  unfolding unreliable_recovery unreliable_startup fst_conv snd_conv
  by (simp add: unreliable_crashed_store_def crashed_store_def healthy_store_def
      pending_batch_def committed_batch_def)


section \<open>The display timestamp of an event document\<close>

text \<open>
  \<^verbatim>\<open>addDoc\<close> (lines 517 to 543) formats the event time in the handler's zone with the
  layout \<^verbatim>\<open>2006-01-02 15:04:05\<close> and stores it in the field \<^verbatim>\<open>TSIST\<close>, whose tag is
  \<^verbatim>\<open>ts_ist,omitempty\<close>. First the example, then the shape of the formatted time for
  every 32-bit event timestamp.
\<close>

declare year_of.simps [simp del]

lemma digit_chars: "char_of (48 :: nat) = CHR ''0''" "char_of (49 :: nat) = CHR ''1''"
  "char_of (50 :: nat) = CHR ''2''" "char_of (51 :: nat) = CHR ''3''"
  "char_of (52 :: nat) = CHR ''4''" "char_of (53 :: nat) = CHR ''5''"
  "char_of (54 :: nat) = CHR ''6''" "char_of (55 :: nat) = CHR ''7''"
  "char_of (56 :: nat) = CHR ''8''" "char_of (57 :: nat) = CHR ''9''"
  by code_simp+

lemma example_year: "year_of 1970 19676 = (2023, 318)"
  by (simp add: year_of.simps year_days_def is_leap_def)

lemma example_month: "month_of (month_lengths 2023) 1 318 = (11, 15)"
  by (simp add: month_lengths_def is_leap_def)

lemma example_appendInt:
  "appendInt 2023 4 = ''2023''" "appendInt 11 2 = ''11''" "appendInt 15 2 = ''15''"
  "appendInt 3 2 = ''03''" "appendInt 43 2 = ''43''" "appendInt 20 2 = ''20''"
  by (simp_all add: appendInt_def nat_dec.simps digit_char_def digit_chars)

lemma example_TSIST:
  "format_datetime (\<lambda>t. 19800) (Unix 1700000000) = ''2023-11-15 03:43:20''"
  by (simp add: format_datetime_def Unix_def example_year example_month example_appendInt)

lemma digit_char_is_digit: "is_digit (digit_char n)"
proof -
  have "n mod 10 < 10" by simp
  then have "n mod 10 \<in> {0, 1, 2, 3, 4, 5, 6, 7, 8, 9}" by (simp add: insert_iff) arith
  then show ?thesis
    by (auto simp: digit_char_def is_digit_def digit_chars)
qed

lemma nat_dec_digits: "c \<in> set (nat_dec n) \<Longrightarrow> is_digit c"
proof (induction n rule: nat_dec.induct)
  case (1 n)
  then show ?case
    by (subst (asm) nat_dec.simps) (auto simp: digit_char_is_digit split: if_splits)
qed

lemma nat_dec_length: "0 < k \<Longrightarrow> n < 10 ^ k \<Longrightarrow> length (nat_dec n) \<le> k"
proof (induction n arbitrary: k rule: nat_dec.induct)
  case (1 n)
  show ?case
  proof (cases "n < 10")
    case True
    with "1.prems" show ?thesis by (subst nat_dec.simps) simp
  next
    case False
    with "1.prems" obtain j where k: "k = Suc j" "0 < j"
      by (cases k; cases "k - 1") auto
    with "1.prems" have "n div 10 < 10 ^ j"
      by (simp add: less_mult_imp_div_less mult.commute)
    with "1.IH" [OF False k(2)] have "length (nat_dec (n div 10)) \<le> j" by simp
    with False k show ?thesis by (subst nat_dec.simps) simp
  qed
qed

lemma digit_shape_append: "digit_shape (a @ b) = digit_shape a @ digit_shape b"
  by (simp add: digit_shape_def)

lemma digit_shape_digits: "(\<And>c. c \<in> set s \<Longrightarrow> is_digit c) \<Longrightarrow> digit_shape s = replicate (length s) CHR ''9''"
  by (induction s) (simp_all add: digit_shape_def)

lemma appendInt_shape:
  assumes "0 \<le> x" "0 < width" "nat x < 10 ^ width"
  shows "digit_shape (appendInt x width) = replicate width CHR ''9''"
proof -
  let ?ds = "nat_dec (nat \<bar>x\<bar>)"
  from assms have len: "length ?ds \<le> width" by (simp add: nat_dec_length)
  have zero: "is_digit CHR ''0''" by (simp add: is_digit_def)
  have "digit_shape (replicate (width - length ?ds) CHR ''0'' @ ?ds)
      = replicate (width - length ?ds) CHR ''9'' @ replicate (length ?ds) CHR ''9''"
    using zero digit_shape_digits [of "replicate (width - length ?ds) CHR ''0''"]
    by (simp add: digit_shape_append digit_shape_digits nat_dec_digits)
  also have "\<dots> = replicate width CHR ''9''"
    using len by (simp flip: replicate_add)
  finally show ?thesis using assms(1) by (simp add: appendInt_def Let_def)
qed

lemma year_days_bounds: "365 \<le> year_days y" "year_days y \<le> 366"
  by (simp_all add: year_days_def)

lemma year_of_bounds:
  "year_of y d = (y', d') \<Longrightarrow>
   0 \<le> d' \<and> d' < year_days y' \<and>
   (0 \<le> d \<longrightarrow> y \<le> y' \<and> 365 * (y' - y) \<le> d) \<and>
   (d < 0 \<longrightarrow> y' < y \<and> 365 * (y - y' - 1) < - d)"
proof (induction y d arbitrary: y' d' rule: year_of.induct)
  case (1 y d)
  show ?case
  proof (cases "d < 0")
    case neg: True
    let ?L = "year_days (y - 1)"
    from neg "1.prems" have rec: "year_of (y - 1) (d + ?L) = (y', d')"
      by (subst (asm) year_of.simps) simp
    note IH = "1.IH"(1) [OF neg rec]
    show ?thesis
    proof (cases "d + ?L < 0")
      case True
      with IH neg year_days_bounds [of "y - 1"] show ?thesis by auto
    next
      case False
      with neg have "year_of (y - 1) (d + ?L) = (y - 1, d + ?L)"
        by (subst year_of.simps) simp
      with rec False neg show ?thesis by auto
    qed
  next
    case nonneg: False
    show ?thesis
    proof (cases "d \<ge> year_days y")
      case True
      with nonneg "1.prems" have rec: "year_of (y + 1) (d - year_days y) = (y', d')"
        by (subst (asm) year_of.simps) simp
      from "1.IH"(2) [OF nonneg True rec] True nonneg year_days_bounds [of y]
      show ?thesis by auto
    next
      case False
      with nonneg "1.prems" show ?thesis
        by (subst (asm) year_of.simps) auto
    qed
  qed
qed

lemma month_of_bounds:
  "0 \<le> d \<Longrightarrow> d < sum_list ls \<Longrightarrow> (\<And>l. l \<in> set ls \<Longrightarrow> l \<le> 31) \<Longrightarrow>
   month_of ls m d = (m', dd) \<Longrightarrow>
   m \<le> m' \<and> m' < m + int (length ls) \<and> 1 \<le> dd \<and> dd \<le> 31"
proof (induction ls arbitrary: m d)
  case Nil
  then show ?case by simp
next
  case (Cons l ls)
  show ?case
  proof (cases "d < l")
    case True
    with Cons.prems show ?thesis by force
  next
    case False
    with Cons.prems have rec: "month_of ls (m + 1) (d - l) = (m', dd)" by simp
    from False Cons.prems have "0 \<le> d - l" "d - l < sum_list ls" by simp_all
    from Cons.IH [OF this _ rec] Cons.prems(3) show ?thesis by auto
  qed
qed

lemma month_lengths_facts:
  "sum_list (month_lengths y) = year_days y" "length (month_lengths y) = 12"
  "l \<in> set (month_lengths y) \<Longrightarrow> l \<le> 31"
  by (auto simp: month_lengths_def year_days_def)

lemma format_datetime_shape:
  assumes ts: "0 \<le> ts" "ts < 2 ^ 32 * 1000000000" and zone: "\<And>t. \<bar>l t\<bar> \<le> 86400"
  shows "digit_shape (format_datetime l ts) = ''9999-99-99 99:99:99''"
proof -
  define unix where "unix = ts div 1000000000"
  define local where "local = unix + l unix"
  define days where "days = local div 86400"
  define secs where "secs = local mod 86400"
  obtain year yday where yo: "year_of 1970 days = (year, yday)"
    by (cases "year_of 1970 days")
  obtain month day where mo: "month_of (month_lengths year) 1 yday = (month, day)"
    by (cases "month_of (month_lengths year) 1 yday")
  from ts have "ts \<le> 4294967295999999999" by simp
  from zdiv_mono1 [OF this, of 1000000000] ts(1) have unix: "0 \<le> unix" "unix < 2 ^ 32"
    by (simp_all add: unix_def pos_imp_zdiv_nonneg_iff)
  from zone [of unix] have "- 86400 \<le> l unix" "l unix \<le> 86400" by simp_all
  with unix have local: "- 86400 \<le> local" "local < 4295053696"
    by (simp_all add: local_def)
  then have "local \<le> 4295053695" by simp
  from zdiv_mono1 [OF local(1), of 86400] zdiv_mono1 [OF this, of 86400]
  have days: "- 1 \<le> days" "days \<le> 49711"
    by (simp_all add: days_def)
  have secs: "0 \<le> secs" "secs < 86400" by (simp_all add: secs_def)
  note yb = year_of_bounds [OF yo]
  have year: "1969 \<le> year" "year \<le> 2106"
    using yb days by (cases "0 \<le> days"; simp)+
  from yb have yday: "0 \<le> yday" "yday < sum_list (month_lengths year)"
    by (simp_all add: month_lengths_facts)
  have ml: "x \<le> 31" if "x \<in> set (month_lengths year)" for x
    using that by (rule month_lengths_facts(3))
  from month_of_bounds [OF yday ml mo]
  have md: "1 \<le> month" "month \<le> 12" "1 \<le> day" "day \<le> 31"
    by (simp_all add: month_lengths_facts)
  from secs have "secs \<le> 86399" by simp
  from zdiv_mono1 [OF this, of 3600] have h24: "secs div 3600 < 24" by simp
  have "secs mod 3600 \<le> 3599" using pos_mod_bound [of 3600 secs] by simp
  from zdiv_mono1 [OF this, of 60] have m60: "secs mod 3600 div 60 < 60" by simp
  have hms: "0 \<le> secs div 3600" "secs div 3600 < 24" "0 \<le> secs mod 3600 div 60"
    "secs mod 3600 div 60 < 60" "0 \<le> secs mod 60" "secs mod 60 < 60"
    using secs h24 m60 by (simp_all add: pos_imp_zdiv_nonneg_iff)
  have r4: "replicate 4 CHR ''9'' = ''9999''" and r2: "replicate 2 CHR ''9'' = ''99''"
    by (simp_all add: numeral_eq_Suc)
  from year have "0 \<le> year" "nat year < 10 ^ 4" by simp_all
  from appendInt_shape [OF this(1) _ this(2)] have Y: "digit_shape (appendInt year 4) = ''9999''"
    by (simp add: r4)
  have two: "digit_shape (appendInt x 2) = ''99''" if "0 \<le> x" "x < 100" for x
  proof -
    from that have "nat x < 10 ^ 2" by simp
    from appendInt_shape [OF that(1) _ this] show ?thesis by (simp add: r2)
  qed
  have seps: "digit_shape (CHR ''-'' # s) = CHR ''-'' # digit_shape s"
    "digit_shape (CHR '' '' # s) = CHR '' '' # digit_shape s"
    "digit_shape (CHR '':'' # s) = CHR '':'' # digit_shape s" for s
    by (simp_all add: digit_shape_def is_digit_def)
  have "format_datetime l ts =
      appendInt year 4 @ ''-'' @ appendInt month 2 @ ''-'' @ appendInt day 2 @ '' ''
        @ appendInt (secs div 3600) 2 @ '':'' @ appendInt (secs mod 3600 div 60) 2 @ '':''
        @ appendInt (secs mod 60) 2"
    using yo mo
    by (simp add: format_datetime_def Let_def unix_def [symmetric] local_def [symmetric]
        days_def [symmetric] secs_def [symmetric])
  then show ?thesis
    using Y two [of month] two [of day] two [of "secs div 3600"] two [of "secs mod 3600 div 60"]
      two [of "secs mod 60"] md hms seps
    by (simp add: digit_shape_append)
qed

lemma format_datetime_not_Nil:
  assumes "digit_shape (format_datetime l ts) = ''9999-99-99 99:99:99''"
  shows "format_datetime l ts \<noteq> []"
proof
  assume "format_datetime l ts = []"
  with assms show False by (simp add: digit_shape_def)
qed

lemma ts_ist_ok_iff:
  "ts_ist_ok l d \<longleftrightarrow>
     TSIST d = format_datetime l (TS d) \<and>
     digit_shape (format_datetime l (TS d)) = ''9999-99-99 99:99:99''"
proof -
  have look: "map_of (bson_EventDoc d) ''ts_ist''
      = (if TSIST d = [] then None else Some (BString (TSIST d)))"
    by (simp add: bson_EventDoc_def)
  show ?thesis
    using format_datetime_not_Nil [of l "TS d"]
    by (auto simp: ts_ist_ok_def look)
qed

lemma no_ts_display: "map_of (bson_EventDoc d) ''ts_display'' = None"
  by (simp add: bson_EventDoc_def)

lemma newEventDoc_ts_ist:
  fixes stamp :: "32 word"
  assumes "\<And>t. \<bar>l t\<bar> \<le> 86400"
  shows "ts_ist_ok l (newEventDoc sha1_hex h l db tbl (Unix (uint stamp)) pk chg op)"
proof -
  have "0 \<le> uint stamp" "uint stamp < 2 ^ 32"
    using uint_lt2p [of stamp] by simp_all
  then have "0 \<le> Unix (uint stamp)" "Unix (uint stamp) < 2 ^ 32 * 1000000000"
    by (simp_all add: Unix_def)
  from format_datetime_shape [OF this assms] show ?thesis
    by (simp add: ts_ist_ok_iff newEventDoc_def)
qed

text \<open>
  The driver calls of a commit add to the events collection only documents of the
  batch they are given.
\<close>


lemma insert_unordered_subset:
  "insert_unordered docs coll = (codes, coll') \<Longrightarrow> set coll' \<subseteq> set coll \<union> set docs"
proof (induction docs arbitrary: coll codes coll')
  case Nil
  then show ?case by simp
next
  case (Cons d ds)
  show ?case
  proof (cases "ID d \<in> set (map ID coll)")
    case True
    with Cons.prems obtain codes2 where "insert_unordered ds coll = (codes2, coll')"
      by (auto split: prod.splits)
    from Cons.IH [OF this] show ?thesis by auto
  next
    case False
    with Cons.prems have "insert_unordered ds (coll @ [d]) = (codes, coll')" by simp
    from Cons.IH [OF this] show ?thesis by auto
  qed
qed

lemma events_BulkWrite_events:
  "events_BulkWrite docs w = (r, w1) \<Longrightarrow> set (events w1) \<subseteq> set (events w) \<union> set docs"
  by (auto simp: events_BulkWrite_def Let_def split: prod.splits option.splits
      dest!: next_fault_frame insert_unordered_subset)

lemma save_offset_events:
  "save_offset src gtid fl pos w = (r, w1) \<Longrightarrow> events w1 = events w"
  by (auto simp: save_offset_def offsets_Upsert_def Now_def Let_def
      split: prod.splits option.splits dest!: next_fault_frame)

lemma transaction_body_events:
  "transaction_body docs src gtid fl pos w = (r, w1) \<Longrightarrow>
   set (events w1) \<subseteq> set (events w) \<union> set docs"
  by (auto simp: transaction_body_def Let_def split: prod.splits option.splits if_splits
      dest!: events_BulkWrite_events save_offset_events)

lemma writeBatchWithTransaction_events:
  "writeBatchWithTransaction docs src gtid fl pos w = (r, w1) \<Longrightarrow>
   set (events w1) \<subseteq> set (events w) \<union> set docs"
  by (auto simp: writeBatchWithTransaction_def WithTransaction_def rollback_def
      split: prod.splits option.splits
      dest!: next_fault_frame transaction_body_events)

lemma writeBatchWithoutTransaction_events:
  "writeBatchWithoutTransaction docs src gtid fl pos w = (r, w1) \<Longrightarrow>
   set (events w1) \<subseteq> set (events w) \<union> set docs"
  by (auto simp: writeBatchWithoutTransaction_def Let_def split: prod.splits option.splits if_splits
      dest!: events_BulkWrite_events save_offset_events)

lemma staging_calls_events:
  "staging_InsertOne doc w = (r, w1) \<Longrightarrow> events w1 = events w"
  "staging_UpdateByID i upd w = (r, w1) \<Longrightarrow> events w1 = events w"
  by (auto simp: staging_InsertOne_def staging_UpdateByID_def split: prod.splits option.splits if_splits
      dest!: next_fault_frame)

lemma commit_attempt_events:
  assumes "commit_attempt batchID doc docs src gtid fl pos w = (r, w1)"
  shows "set (events w1) \<subseteq> set (events w) \<union> set docs"
proof -
  obtain ir wi where ins: "staging_InsertOne doc w = (ir, wi)"
    by (cases "staging_InsertOne doc w")
  note ei = staging_calls_events(1) [OF ins]
  show ?thesis
  proof (cases ir)
    case (Some e)
    with assms ins ei show ?thesis by (simp add: commit_attempt_def)
  next
    case None
    have mark: "events wm' = events wm"
      if "(let (t, w2) = Now wm;
               (ignored, w3) = staging_UpdateByID batchID
                  (\<lambda>d. d\<lparr>status := ''committed'', committedAt := Some t\<rparr>) w2
           in (None :: error option, w3)) = (rm, wm')" for wm wm' rm
      using that
      by (auto simp: Now_def Let_def split: prod.splits dest!: staging_calls_events(2))
    obtain tr wt where tx: "writeBatchWithTransaction docs src gtid fl pos wi = (tr, wt)"
      by (cases "writeBatchWithTransaction docs src gtid fl pos wi")
    note et = writeBatchWithTransaction_events [OF tx]
    have "set (events w1) \<subseteq> set (events wi) \<union> set docs"
    proof (cases tr)
      case n: None
      with assms ins None tx et mark [of wt r w1] show ?thesis
        by (simp add: commit_attempt_def)
    next
      case (Some err)
      show ?thesis
      proof (cases "contains (error_string err) ''Transaction numbers are only allowed on a replica set''
                     \<or> contains (error_string err)
                          ''Cannot insert into a time-series collection in a multi-document transaction''")
        case False
        with assms ins None tx Some et show ?thesis
          by (simp add: commit_attempt_def)
      next
        case True
        define w3 where "w3 = (if \<not> noTxWarningLogged wt
              then (log_Println ''WARNING: MongoDB transactions not supported (standalone or time-series collection), using non-transactional writes. Data safety reduced.'' wt)
                     \<lparr>noTxWarningLogged := True\<rparr>
              else wt)"
        have e3: "events w3 = events wt" by (simp add: w3_def log_Println_def)
        obtain fr wf where fb: "writeBatchWithoutTransaction docs src gtid fl pos w3 = (fr, wf)"
          by (cases "writeBatchWithoutTransaction docs src gtid fl pos w3")
        note ef = writeBatchWithoutTransaction_events [OF fb]
        show ?thesis
        proof (cases fr)
          case n: None
          with assms ins None tx Some True fb mark [of wf r w1] ef e3 et show ?thesis
            unfolding commit_attempt_def by (auto simp: Let_def w3_def [symmetric])
        next
          case (Some e2)
          with assms ins None tx \<open>tr = Some err\<close> True fb ef e3 et show ?thesis
            unfolding commit_attempt_def by (auto simp: Let_def w3_def [symmetric])
        qed
      qed
    qed
    with ei show ?thesis by simp
  qed
qed

lemma writeBatchWithGTID_events:
  assumes "writeBatchWithGTID ctx docs src gtid fl pos w = (r, w1)"
  shows "set (events w1) \<subseteq> set (events w) \<union> set docs"
proof (cases "length docs = 0")
  case True
  with assms show ?thesis by (simp add: writeBatchWithGTID_def)
next
  case False
  define batchID where "batchID = src @ ''_'' @ int_dec (clock w) @ ''_'' @ gtid"
  define stagingDoc where "stagingDoc =
      \<lparr>st_id = batchID, st_events = docs, st_source = src, st_gtid = gtid,
       st_file = fl, st_pos = pos, createdAt = clock w + 1, status = ''pending'',
       committedAt = None, archivedAt = None\<rparr>"
  define w2 where "w2 = w\<lparr>clock := 2 + clock w\<rparr>"
  let ?R = "\<lambda>a b. set (events b) \<subseteq> set (events a) \<union> set docs"
  have eq: "writeBatchWithGTID ctx docs src gtid fl pos w =
      (case retry_loop (commit_attempt batchID stagingDoc docs src gtid fl pos)
              (sleep_ctx ctx) 5 0 (100 * Millisecond) None w2 of (r, tr, w3) \<Rightarrow> (r, w3))"
    using False
    by (simp add: writeBatchWithGTID_def Now_def retryWithBackoff_def Let_def batchID_def
        stagingDoc_def w2_def Millisecond_def)
  obtain r' tr w1' where run': "retry_loop (commit_attempt batchID stagingDoc docs src gtid fl pos)
      (sleep_ctx ctx) 5 0 (100 * Millisecond) None w2 = (r', tr, w1')"
    by (metis prod_cases3)
  with assms eq have run: "retry_loop (commit_attempt batchID stagingDoc docs src gtid fl pos)
      (sleep_ctx ctx) 5 0 (100 * Millisecond) None w2 = (r, tr, w1)"
    by simp
  have fnq: "?R v v1" if "commit_attempt batchID stagingDoc docs src gtid fl pos v = (x, v1)" for v x v1
    using commit_attempt_events [OF that] .
  have slq: "?R v v1" if "sleep_ctx ctx d v = (x, v1)" for d v x v1
    using quiet_fields [OF sleep_ctx_quiet [OF that]] by simp
  have rq: "?R v v" for v by simp
  have tq: "?R a c" if "?R a b" "?R b c" for a b c
    using that by blast
  have "?R w2 w1"
    by (rule retry_loop_rel [where R = ?R
          and fn = "commit_attempt batchID stagingDoc docs src gtid fl pos"
          and sleep = "sleep_ctx ctx", OF fnq slq rq tq run])
  then show ?thesis by (simp add: w2_def)
qed

text \<open>
  A property of event documents that holds of every new document is kept by
  \<^verbatim>\<open>addDoc\<close>, by the three row loops, and by \<^verbatim>\<open>Flush\<close> and \<^verbatim>\<open>OnTableChanged\<close>, for the
  documents of the batch and of the events collection.
\<close>

lemma addDoc_cases:
  assumes l: "loc h = Some l"
  obtains (small) h2 where "addDoc sha1_hex db tbl ts pk chg op h w = (Return None, h2, w)"
      "loc h2 = Some l" "batch h2 = batch h @ [newEventDoc sha1_hex h l db tbl ts pk chg op]"
  | (failed) err h2 w1 where
      "addDoc sha1_hex db tbl ts pk chg op h w =
         (Return (Some (Errorf ''write batch with GTID'' err)), h2, w1)"
      "loc h2 = Some l" "batch h2 = batch h @ [newEventDoc sha1_hex h l db tbl ts pk chg op]"
      "writeBatchWithGTID None (batch h2) (source h) (lastGTID h) (lastFile h)
         (ucast (lastPos h)) w = (Some err, w1)"
  | (flushed) h2 w1 where "addDoc sha1_hex db tbl ts pk chg op h w = (Return None, h2, w1)"
      "loc h2 = Some l" "batch h2 = []"
      "writeBatchWithGTID None (batch h @ [newEventDoc sha1_hex h l db tbl ts pk chg op])
         (source h) (lastGTID h) (lastFile h) (ucast (lastPos h)) w = (None, w1)"
proof -
  let ?doc = "newEventDoc sha1_hex h l db tbl ts pk chg op"
  let ?wb = "writeBatchWithGTID None (batch h @ [?doc]) (source h) (lastGTID h) (lastFile h)
         (ucast (lastPos h)) w"
  show thesis
  proof (cases "length (batch h) + 1 \<ge> 100")
    case False
    show thesis
      by (rule small [of "h\<lparr>batch := batch h @ [?doc], batchFile := lastFile h,
            batchPos := ucast (lastPos h), batchGTID := lastGTID h\<rparr>"])
         (use l False in \<open>simp_all add: addDoc_def Let_def\<close>)
  next
    case True
    obtain wr w1 where wb: "?wb = (wr, w1)" by (cases ?wb)
    show thesis
    proof (cases wr)
      case None
      show thesis
        by (rule flushed [of "h\<lparr>batch := [], batchFile := lastFile h,
            batchPos := ucast (lastPos h), batchGTID := lastGTID h\<rparr>" w1])
           (use l True wb None in \<open>simp_all add: addDoc_def Let_def\<close>)
    next
      case (Some err)
      show thesis
        by (rule failed [of err "h\<lparr>batch := batch h @ [?doc], batchFile := lastFile h,
            batchPos := ucast (lastPos h), batchGTID := lastGTID h\<rparr>" w1])
           (use l True wb Some in \<open>simp_all add: addDoc_def Let_def\<close>)
    qed
  qed
qed

lemma addDoc_inv:
  assumes run: "addDoc sha1_hex db tbl ts pk chg op h w = (r, h', w')"
    and l: "loc h = Some l"
    and new: "P (newEventDoc sha1_hex h l db tbl ts pk chg op)"
    and old: "\<And>d. d \<in> set (batch h) \<union> set (events w) \<Longrightarrow> P d"
  shows "loc h' = Some l \<and> (\<forall>d \<in> set (batch h') \<union> set (events w'). P d)"
proof (cases rule: addDoc_cases [OF l, of sha1_hex db tbl ts pk chg op w, case_names small failed flushed])
  case (small h2)
  with run have "h' = h2" "w' = w" by simp_all
  with small(2,3) new old show ?thesis by auto
next
  case (failed err h2 w1)
  with run have eq: "h' = h2" "w' = w1" by simp_all
  from writeBatchWithGTID_events [OF failed(4)] failed(3)
  have "set (events w1) \<subseteq> set (events w) \<union> set (batch h) \<union>
      {newEventDoc sha1_hex h l db tbl ts pk chg op}" by auto
  with eq failed(2,3) new old show ?thesis by auto
next
  case (flushed h2 w1)
  with run have eq: "h' = h2" "w' = w1" by simp_all
  from writeBatchWithGTID_events [OF flushed(4)]
  have "set (events w1) \<subseteq> set (events w) \<union> set (batch h) \<union>
      {newEventDoc sha1_hex h l db tbl ts pk chg op}" by auto
  with eq flushed(2,3) new old show ?thesis by auto
qed
lemma insert_rows_inv:
  assumes new: "\<And>g pk chg. P (newEventDoc sha1_hex g l (Schema (Table e)) (Name (Table e))
      (Unix (uint (Timestamp e))) pk chg ''i'')"
  shows "insert_rows sha1_hex e rows h w = (r, h', w') \<Longrightarrow> loc h = Some l \<Longrightarrow>
    (\<And>d. d \<in> set (batch h) \<union> set (events w) \<Longrightarrow> P d) \<Longrightarrow>
    loc h' = Some l \<and> (\<forall>d \<in> set (batch h') \<union> set (events w'). P d)"
proof (induction rows arbitrary: h w)
  case Nil
  then show ?case by auto
next
  case (Cons row rows)
  show ?case
  proof (cases "insert_chg (Columns (Table e)) row")
    case None
    with Cons.prems show ?thesis by auto
  next
    case (Some chg)
    obtain ar h1 w1 where ad: "addDoc sha1_hex (Schema (Table e)) (Name (Table e))
        (Unix (uint (Timestamp e))) (pkVal (PKColumns (Table e)) row) chg ''i'' h w = (ar, h1, w1)"
      by (metis prod_cases3)
    note inv1 = addDoc_inv [where P = P, OF ad Cons.prems(2) new Cons.prems(3)]
    show ?thesis
    proof (cases ar)
      case (Panic m)
      with Cons.prems(1) Some ad inv1 show ?thesis by auto
    next
      case (Return ro)
      show ?thesis
      proof (cases ro)
        case (Some err)
        with Cons.prems(1) \<open>insert_chg (Columns (Table e)) row = Some chg\<close> ad Return inv1
        show ?thesis by auto
      next
        case None
        with Cons.prems(1) \<open>insert_chg (Columns (Table e)) row = Some chg\<close> ad Return
        have "insert_rows sha1_hex e rows h1 w1 = (r, h', w')" by simp
        from Cons.IH [OF this] inv1 show ?thesis by blast
      qed
    qed
  qed
qed

lemma delete_rows_inv:
  assumes new: "\<And>g pk chg. P (newEventDoc sha1_hex g l (Schema (Table e)) (Name (Table e))
      (Unix (uint (Timestamp e))) pk chg ''d'')"
  shows "delete_rows sha1_hex e rows h w = (r, h', w') \<Longrightarrow> loc h = Some l \<Longrightarrow>
    (\<And>d. d \<in> set (batch h) \<union> set (events w) \<Longrightarrow> P d) \<Longrightarrow>
    loc h' = Some l \<and> (\<forall>d \<in> set (batch h') \<union> set (events w'). P d)"
proof (induction rows arbitrary: h w)
  case Nil
  then show ?case by auto
next
  case (Cons row rows)
  show ?case
  proof (cases "delete_chg (Columns (Table e)) row")
    case None
    with Cons.prems show ?thesis by auto
  next
    case (Some chg)
    obtain ar h1 w1 where ad: "addDoc sha1_hex (Schema (Table e)) (Name (Table e))
        (Unix (uint (Timestamp e))) (pkVal (PKColumns (Table e)) row) chg ''d'' h w = (ar, h1, w1)"
      by (metis prod_cases3)
    note inv1 = addDoc_inv [where P = P, OF ad Cons.prems(2) new Cons.prems(3)]
    show ?thesis
    proof (cases ar)
      case (Panic m)
      with Cons.prems(1) Some ad inv1 show ?thesis by auto
    next
      case (Return ro)
      show ?thesis
      proof (cases ro)
        case (Some err)
        with Cons.prems(1) \<open>delete_chg (Columns (Table e)) row = Some chg\<close> ad Return inv1
        show ?thesis by auto
      next
        case None
        with Cons.prems(1) \<open>delete_chg (Columns (Table e)) row = Some chg\<close> ad Return
        have "delete_rows sha1_hex e rows h1 w1 = (r, h', w')" by simp
        from Cons.IH [OF this] inv1 show ?thesis by blast
      qed
    qed
  qed
qed

lemma update_rows_inv:
  "(\<And>g pk chg. P (newEventDoc sha1_hex g l (Schema (Table e)) (Name (Table e))
      (Unix (uint (Timestamp e))) pk chg ''u'')) \<Longrightarrow>
   update_rows sha1_hex e i h w = (r, h', w') \<Longrightarrow> loc h = Some l \<Longrightarrow>
   (\<And>d. d \<in> set (batch h) \<union> set (events w) \<Longrightarrow> P d) \<Longrightarrow>
   loc h' = Some l \<and> (\<forall>d \<in> set (batch h') \<union> set (events w'). P d)"
proof (induction sha1_hex e i h w rule: update_rows.induct)
  case (1 sha1_hex e i h w)
  note new = "1.prems"(1) and run = "1.prems"(2) and l = "1.prems"(3) and old = "1.prems"(4)
  show ?case
  proof (cases "i < length (Rows e)")
    case False
    with run l old show ?thesis by (subst (asm) update_rows.simps) auto
  next
    case True
    show ?thesis
    proof (cases "i + 1 < length (Rows e)")
      case False
      with True have "index (Rows e) i = Some (Rows e ! i)" "index (Rows e) (i + 1) = None"
        by (simp_all add: index_def)
      with True run l old show ?thesis by (subst (asm) update_rows.simps) auto
    next
      case i1: True
      with True have ix: "index (Rows e) i = Some (Rows e ! i)"
        "index (Rows e) (i + 1) = Some (Rows e ! (i + 1))"
        by (simp_all add: index_def)
      obtain chg where chg: "update_chg (Columns (Table e)) (Rows e ! i) (Rows e ! (i + 1)) = Some chg"
        using update_chg_Some by blast
      obtain ar h1 w1 where ad: "addDoc sha1_hex (Schema (Table e)) (Name (Table e))
          (Unix (uint (Timestamp e))) (pkVal (PKColumns (Table e)) (Rows e ! (i + 1))) chg ''u'' h w
          = (ar, h1, w1)"
        by (metis prod_cases3)
      note inv1 = addDoc_inv [where P = P, OF ad l new old]
      show ?thesis
      proof (cases ar)
        case (Panic m)
        with True ix chg ad run inv1 show ?thesis
          by (subst (asm) update_rows.simps) auto
      next
        case (Return ro)
        show ?thesis
        proof (cases ro)
          case (Some err)
          with True ix chg ad Return run inv1 show ?thesis
            by (subst (asm) update_rows.simps) auto
        next
          case None
          with True ix chg ad Return run
          have rec: "update_rows sha1_hex e (i + 2) h1 w1 = (r, h', w')"
            by (subst (asm) update_rows.simps) simp
          from "1.IH" [OF True refl ix(1) ix(2) chg ad [symmetric] Return None refl new rec] inv1
          show ?thesis by blast
        qed
      qed
    qed
  qed
qed


lemma Flush_inv:
  assumes run: "Flush ctx h w = (r, h', w')"
    and l: "loc h = Some l"
    and old: "\<And>d. d \<in> set (batch h) \<union> set (events w) \<Longrightarrow> P d"
  shows "loc h' = Some l \<and> (\<forall>d \<in> set (batch h') \<union> set (events w'). P d)"
proof (cases "length (batch h) = 0")
  case True
  with run l old show ?thesis by (auto simp: Flush_def)
next
  case False
  define w1 where "w1 = log_Println (''Flushing '' @ nat_dec (length (batch h)) @ '' remaining events'') w"
  have ev1: "events w1 = events w" by (simp add: w1_def log_Println_def)
  obtain wr w2 where wb: "writeBatchWithGTID ctx (batch h) (source h) (batchGTID h) (batchFile h)
      (batchPos h) w1 = (wr, w2)"
    by (cases "writeBatchWithGTID ctx (batch h) (source h) (batchGTID h) (batchFile h)
      (batchPos h) w1")
  from writeBatchWithGTID_events [OF wb] ev1
  have ev: "set (events w2) \<subseteq> set (events w) \<union> set (batch h)" by auto
  from run False wb have "w' = w2" "h' = h \<or> h' = h\<lparr>batch := []\<rparr>"
    by (auto simp: Flush_def Let_def w1_def split: option.splits)
  then have "w' = w2" "loc h' = loc h" "set (batch h') \<subseteq> set (batch h)" by auto
  with ev l old show ?thesis by auto
qed

lemma OnTableChanged_inv:
  assumes run: "OnTableChanged schema table h w = (r, h', w')"
    and l: "loc h = Some l"
    and old: "\<And>d. d \<in> set (batch h) \<union> set (events w) \<Longrightarrow> P d"
  shows "loc h' = Some l \<and> (\<forall>d \<in> set (batch h') \<union> set (events w'). P d)"
proof -
  define h1 where "h1 = h\<lparr>tableSchemas := (tableSchemas h)(schema @ ''.'' @ table := None)\<rparr>"
  define w1 where "w1 = log_Println (''Schema change detected: '' @ (schema @ ''.'' @ table)
      @ '' - flushing batch for safety'') w"
  obtain fr h2 w2 where fl: "Flush None h1 w1 = (fr, h2, w2)" by (metis prod_cases3)
  have "loc h1 = Some l" "\<And>d. d \<in> set (batch h1) \<union> set (events w1) \<Longrightarrow> P d"
    using l old by (simp_all add: h1_def w1_def log_Println_def)
  from Flush_inv [where P = P, OF fl this]
  have inv2: "loc h2 = Some l" "\<forall>d \<in> set (batch h2) \<union> set (events w2). P d" by simp_all
  from run fl have "h' = h2" "events w' = events w2"
    by (auto simp: OnTableChanged_def Let_def h1_def w1_def log_Println_def split: option.splits)
  with inv2 show ?thesis by simp
qed

lemma OnRow_inv:
  assumes run: "OnRow sha1_hex e h w = (r, h', w')"
    and l: "loc h = Some l"
    and new: "\<And>g pk chg op. P (newEventDoc sha1_hex g l (Schema (Table e)) (Name (Table e))
      (Unix (uint (Timestamp e))) pk chg op)"
    and old: "\<And>d. d \<in> set (batch h) \<union> set (events w) \<Longrightarrow> P d"
  shows "loc h' = Some l \<and> (\<forall>d \<in> set (batch h') \<union> set (events w'). P d)"
proof -
  consider (none) "h' = h" "w' = w"
    | (ins) "insert_rows sha1_hex e (Rows e) h w = (r, h', w')"
    | (del) "delete_rows sha1_hex e (Rows e) h w = (r, h', w')"
    | (upd) "update_rows sha1_hex e 0 h w = (r, h', w')"
    using run by (auto simp: OnRow_def split: if_splits)
  then show ?thesis
  proof cases
    case none
    with l old show ?thesis by auto
  next
    case ins
    from insert_rows_inv [where P = P, OF new ins l old] show ?thesis .
  next
    case del
    from delete_rows_inv [where P = P, OF new del l old] show ?thesis .
  next
    case upd
    from update_rows_inv [where P = P, OF new upd l old] show ?thesis .
  qed
qed

text \<open>
  Claim C8, as the code has it. The display timestamp of an event document is stored
  under the key \<^verbatim>\<open>ts_ist\<close> (the tag of the field \<^verbatim>\<open>TSIST\<close>; no field is called
  \<^verbatim>\<open>ts_display\<close>). With a loaded time zone whose offsets stay within a day, every
  document that \<^verbatim>\<open>OnRow\<close>, \<^verbatim>\<open>Flush\<close> and \<^verbatim>\<open>OnTableChanged\<close> leave in the batch or in the
  events collection has the field \<^verbatim>\<open>ts_ist\<close>, holding the document's own timestamp
  \<^verbatim>\<open>ts\<close> formatted in that zone, of the shape \<^verbatim>\<open>YYYY-MM-DD HH:MM:SS\<close>, provided the
  documents already there do; the zone stays loaded, so the property holds after every
  sequence of these calls that starts from an empty batch and an empty collection.
\<close>

theorem event_documents_have_ts_ist:
  assumes "loc h = Some l" and "\<And>t. \<bar>l t\<bar> \<le> 86400"
    and "\<And>d. d \<in> set (batch h) \<union> set (events w) \<Longrightarrow> ts_ist_ok l d"
  shows "(case OnRow sha1_hex e h w of (r, h', w') \<Rightarrow>
            loc h' = Some l \<and> (\<forall>d \<in> set (batch h') \<union> set (events w'). ts_ist_ok l d)) \<and>
         (case Flush ctx h w of (r, h', w') \<Rightarrow>
            loc h' = Some l \<and> (\<forall>d \<in> set (batch h') \<union> set (events w'). ts_ist_ok l d)) \<and>
         (case OnTableChanged schema table h w of (r, h', w') \<Rightarrow>
            loc h' = Some l \<and> (\<forall>d \<in> set (batch h') \<union> set (events w'). ts_ist_ok l d))"
proof (intro conjI)
  obtain r h' w' where run: "OnRow sha1_hex e h w = (r, h', w')" by (metis prod_cases3)
  from OnRow_inv [where P = "ts_ist_ok l", OF run assms(1) newEventDoc_ts_ist [OF assms(2)] assms(3)]
  show "case OnRow sha1_hex e h w of (r, h', w') \<Rightarrow>
      loc h' = Some l \<and> (\<forall>d \<in> set (batch h') \<union> set (events w'). ts_ist_ok l d)"
    by (simp add: run)
next
  obtain r h' w' where run: "Flush ctx h w = (r, h', w')" by (metis prod_cases3)
  from Flush_inv [where P = "ts_ist_ok l", OF run assms(1) assms(3)]
  show "case Flush ctx h w of (r, h', w') \<Rightarrow>
      loc h' = Some l \<and> (\<forall>d \<in> set (batch h') \<union> set (events w'). ts_ist_ok l d)"
    by (simp add: run)
next
  obtain r h' w' where run: "OnTableChanged schema table h w = (r, h', w')" by (metis prod_cases3)
  from OnTableChanged_inv [where P = "ts_ist_ok l", OF run assms(1) assms(3)]
  show "case OnTableChanged schema table h w of (r, h', w') \<Rightarrow>
      loc h' = Some l \<and> (\<forall>d \<in> set (batch h') \<union> set (events w'). ts_ist_ok l d)"
    by (simp add: run)
qed

text \<open>
  The example insert: \<^verbatim>\<open>OnRow\<close> puts one document into the batch, and \<^verbatim>\<open>Flush\<close> writes
  it to the events collection of the healthy store.
\<close>

lemma example_insert_fields:
  "Schema (Table example_insert) = ''shop''" "Name (Table example_insert) = ''customers''"
  "Columns (Table example_insert) = example_columns" "PKColumns (Table example_insert) = [0]"
  "Action example_insert = InsertAction" "Rows example_insert = [example_row]"
  "uint (Timestamp example_insert) = 1700000000"
  by (simp_all add: example_insert_def example_table_def)

lemma example_insert_run:
  "OnRow (\<lambda>s. s) example_insert example_handler healthy_store
     = (Return None,
        example_handler\<lparr>batch := [example_doc], batchFile := ''mysql-bin.000001'',
                         batchPos := 4, batchGTID := ''uuid:1-5''\<rparr>,
        healthy_store)"
proof -
  have pk: "pkVal [0] example_row = AInt 7"
    by (simp add: pkVal_def example_row_def)
  have ad: "addDoc (\<lambda>s. s) ''shop'' ''customers'' (Unix 1700000000) (AInt 7)
      [(''id'', \<lparr>F = ANil, T = AInt 7\<rparr>), (''name'', \<lparr>F = ANil, T = AString ''ann''\<rparr>)] ''i''
      example_handler healthy_store
    = (Return None,
        example_handler\<lparr>batch := [example_doc], batchFile := ''mysql-bin.000001'',
                         batchPos := 4, batchGTID := ''uuid:1-5''\<rparr>,
        healthy_store)"
    by (simp add: addDoc_def Let_def example_doc_def example_handler_def)
  show ?thesis
    by (simp add: OnRow_def example_insert_fields example_insert_chg pk ad)
qed

lemma example_flush_run:
  "events (snd (snd (Flush None
      (example_handler\<lparr>batch := [example_doc], batchFile := ''mysql-bin.000001'',
                        batchPos := 4, batchGTID := ''uuid:1-5''\<rparr>) healthy_store)))
     = [example_doc]"
  by (simp add: Flush_def log_Println_def example_handler_def
      writeBatchWithGTID_def Now_def retryWithBackoff_def retry_loop.simps
      commit_attempt_def staging_InsertOne_def staging_UpdateByID_def next_fault_def
      writeBatchWithTransaction_def WithTransaction_def transaction_body_def events_BulkWrite_def
      save_offset_def offsets_Upsert_def healthy_store_def Millisecond_def Let_def)

lemma example_doc_TS: "TS example_doc = Unix 1700000000"
  by (simp add: example_doc_def newEventDoc_def)

lemma example_doc_keys:
  "map fst (bson_EventDoc example_doc)
     = [''_id'', ''ts'', ''op'', ''meta'', ''seq'', ''chg'', ''src'', ''ts_ist'']"
  by (simp add: bson_EventDoc_def example_doc_def newEventDoc_def example_TSIST)

theorem event_documents_have_ts_ist_witness:
  "loc example_handler = Some (\<lambda>t. 19800) \<and>
   batch (fst (snd (OnRow (\<lambda>s. s) example_insert example_handler healthy_store)))
     = [example_doc] \<and>
   map_of (bson_EventDoc example_doc) ''ts_ist'' = Some (BString ''2023-11-15 03:43:20'')"
proof -
  have l: "loc example_handler = Some (\<lambda>t. 19800)" by (simp add: example_handler_def)
  have zone: "\<And>t. \<bar>(\<lambda>t. 19800 :: int) t\<bar> \<le> 86400" by simp
  have old: "\<And>d. d \<in> set (batch example_handler) \<union> set (events healthy_store)
      \<Longrightarrow> ts_ist_ok (\<lambda>t. 19800) d"
    by (simp add: example_handler_def healthy_store_def)
  have b: "batch (fst (snd (OnRow (\<lambda>s. s) example_insert example_handler healthy_store)))
      = [example_doc]"
    unfolding example_insert_run by simp
  from event_documents_have_ts_ist [where h = example_handler and w = healthy_store
      and sha1_hex = "\<lambda>s. s" and e = example_insert, OF l zone old, THEN conjunct1]
  have "ts_ist_ok (\<lambda>t. 19800) example_doc"
    unfolding example_insert_run by simp
  then have "map_of (bson_EventDoc example_doc) ''ts_ist''
      = Some (BString ''2023-11-15 03:43:20'')"
    by (simp add: ts_ist_ok_def example_doc_TS example_TSIST)
  with l b show ?thesis by (intro conjI)
qed

text \<open>
  The sentence of the specification names the field \<^verbatim>\<open>ts_display\<close>. The document that
  the example insert produces is written to the events collection with eight
  fields, none of them called \<^verbatim>\<open>ts_display\<close>.
\<close>

theorem ts_display_counterexample:
  "events (snd (snd (Flush None
      (fst (snd (OnRow (\<lambda>s. s) example_insert example_handler healthy_store)))
      healthy_store))) = [example_doc] \<and>
   map fst (bson_EventDoc example_doc)
     = [''_id'', ''ts'', ''op'', ''meta'', ''seq'', ''chg'', ''src'', ''ts_ist''] \<and>
   map_of (bson_EventDoc example_doc) ''ts_display'' = None"
proof -
  have "events (snd (snd (Flush None
      (fst (snd (OnRow (\<lambda>s. s) example_insert example_handler healthy_store)))
      healthy_store))) = [example_doc]"
    unfolding example_insert_run fst_conv snd_conv by (rule example_flush_run)
  with example_doc_keys no_ts_display [of example_doc] show ?thesis by (intro conjI)
qed

end
